theory Spec2Isabelle
  imports Complex_Main "HOL-Library.Word" "HOL-Library.Sublist" "HOL-Library.Multiset"
    "HOL-Library.Log_Nat"
begin

section \<open>Typed arrays and strings\<close>

text \<open>
  The save file is an \<^verbatim>\<open>ArrayBuffer\<close>, read through \<^verbatim>\<open>Uint8Array\<close> and
  \<^verbatim>\<open>Int8Array\<close> views: a list of 8-bit words. JavaScript strings are lists of
  characters; a \<^typ>\<open>char\<close> stands for a code unit below 256, which covers every
  string the binary parser builds (hexadecimal digits and the text \<^verbatim>\<open>NaN\<close>).
\<close>

type_synonym byte = "8 word"
type_synonym bytes = "byte list"

text \<open>
  \<^verbatim>\<open>subarray(b, e)\<close> and \<^verbatim>\<open>slice(b, e)\<close> with non-negative arguments: both
  bounds are clamped to the length, and an end before the start gives the empty range.
  Neither raises.
\<close>

definition subarray :: "'a list \<Rightarrow> nat \<Rightarrow> nat \<Rightarrow> 'a list" where
  "subarray buf b e = take (e - b) (drop b buf)"

definition slice_js :: "'a list \<Rightarrow> nat \<Rightarrow> nat \<Rightarrow> 'a list" where
  "slice_js buf b e = take (e - b) (drop b buf)"

text \<open>\<^verbatim>\<open>a[i]\<close> on an array: \<^verbatim>\<open>undefined\<close> (here \<open>None\<close>) outside the array.\<close>

definition at_index :: "'a list \<Rightarrow> int \<Rightarrow> 'a option" where
  "at_index xs i = (if 0 \<le> i \<and> i < int (length xs) then Some (xs ! nat i) else None)"

section \<open>binaryParser.js\<close>

subsection \<open>Constants\<close>

definition PATTERN_NORMAL :: bytes where
  "PATTERN_NORMAL = [0xB0, 0xAD, 0x01, 0x00, 0x01, 0xFF, 0xFF, 0xFF]"

definition PATTERN_DLC :: bytes where
  "PATTERN_DLC = [0xB0, 0xAD, 0x01, 0x00, 0x01]"

definition FILE_SIGNATURE :: bytes where
  "FILE_SIGNATURE = [66, 78, 68, 52]"

record parser =
  isDlcFile :: bool
  fileData :: "bytes option"

subsection \<open>bufferEqual, validateFile, findPattern\<close>

text \<open>
  \<^verbatim>\<open>bufferEqual\<close> compares the byte lengths, then reads both buffers as
  \<^verbatim>\<open>Int8Array\<close> (signed bytes, \<^const>\<open>sint\<close>) and compares element by element.
\<close>

function bufferEqualLoop :: "nat \<Rightarrow> bytes \<Rightarrow> bytes \<Rightarrow> bool" where
  "bufferEqualLoop i dv1 dv2 =
     (if i < length dv1 then
        (if sint (dv1 ! i) \<noteq> sint (dv2 ! i) then False else bufferEqualLoop (i + 1) dv1 dv2)
      else True)"
  by pat_completeness auto
termination
  by (relation "measure (\<lambda>(i, dv1, dv2). length dv1 - i)") auto

declare bufferEqualLoop.simps [simp del]

definition bufferEqual :: "bytes \<Rightarrow> bytes \<Rightarrow> bool" where
  "bufferEqual buf1 buf2 =
     (if length buf1 \<noteq> length buf2 then False else bufferEqualLoop 0 buf1 buf2)"

definition validateFile :: "bytes \<Rightarrow> bool" where
  "validateFile file = bufferEqual (slice_js file 0 4) FILE_SIGNATURE"

text \<open>
  \<^verbatim>\<open>findPattern\<close>: the loop over \<open>i\<close> returns the first \<open>i\<close> that passes both tests,
  \<^verbatim>\<open>null\<close> (\<open>None\<close>) when the loop ends. \<^verbatim>\<open>pattern[0]\<close> of an empty pattern is
  \<^verbatim>\<open>undefined\<close>, which no byte equals.
\<close>

function findPatternLoop :: "nat \<Rightarrow> bytes \<Rightarrow> bytes \<Rightarrow> nat option" where
  "findPatternLoop i buffer pattern =
     (if i < length buffer then
        (if (case pattern of [] \<Rightarrow> False | p0 # _ \<Rightarrow> buffer ! i = p0) \<and>
            bufferEqual (subarray buffer i (i + length pattern)) pattern
         then Some i
         else findPatternLoop (i + 1) buffer pattern)
      else None)"
  by pat_completeness auto
termination
  by (relation "measure (\<lambda>(i, buffer, pattern). length buffer - i)") auto

declare findPatternLoop.simps [simp del]

definition findPattern :: "bytes \<Rightarrow> bytes \<Rightarrow> nat option" where
  "findPattern buffer pattern = findPatternLoop 0 buffer pattern"

subsection \<open>getSlots\<close>

definition getSlots :: "bytes \<Rightarrow> bytes list" where
  "getSlots file =
     [subarray file 0x00000310 (0x0028030f + 1),
      subarray file 0x00280320 (0x0050031f + 1),
      subarray file 0x00500330 (0x0078032f + 1),
      subarray file 0x00780340 (0x00a0033f + 1),
      subarray file 0x00a00350 (0x00c8034f + 1),
      subarray file 0x00c80360 (0x00f0035f + 1),
      subarray file 0x00f00370 (0x0118036f + 1),
      subarray file 0x01180380 (0x0140037f + 1),
      subarray file 0x01400390 (0x0168038f + 1),
      subarray file 0x016803a0 (0x0190039f + 1)]"

subsection \<open>getCharacterNames\<close>

text \<open>
  Exceptions the parser can raise. \<^verbatim>\<open>new Uint16Array(buffer)\<close> raises a
  \<^verbatim>\<open>RangeError\<close> when the buffer's byte length is odd; reading \<^verbatim>\<open>byteLength\<close> of
  \<^verbatim>\<open>undefined\<close> raises a \<^verbatim>\<open>TypeError\<close>.
\<close>

datatype jsException = RangeError | TypeError

text \<open>
  The 16-bit code units of a buffer of even length (little-endian host), and their
  conversion to \<^verbatim>\<open>Int8Array\<close> elements, which keeps the low byte of each.
\<close>

fun Uint16Array :: "bytes \<Rightarrow> 16 word list" where
  "Uint16Array (lo # hi # rest) = (ucast lo + 256 * ucast hi) # Uint16Array rest"
| "Uint16Array _ = []"

definition nameData :: "bytes \<Rightarrow> nat \<Rightarrow> jsException + bytes" where
  "nameData file offset =
     (let buf = slice_js file offset (offset + 32)
      in if odd (length buf) then Inl RangeError
         else Inr (map ucast (Uint16Array buf)))"

definition nameOffsets :: "nat list" where
  "nameOffsets =
     [0x1901d0e, 0x1901f5a, 0x19021a6, 0x19023f2, 0x190263e,
      0x190288a, 0x1902ad6, 0x1902d22, 0x1902f6e, 0x19031ba]"

text \<open>\<^verbatim>\<open>offsets.map\<close>, where the callback may raise: the first exception ends the map.\<close>

fun mapRaising :: "('a \<Rightarrow> jsException + 'b) \<Rightarrow> 'a list \<Rightarrow> jsException + 'b list" where
  "mapRaising f [] = Inr []"
| "mapRaising f (x # xs) =
     (case f x of
        Inl e \<Rightarrow> Inl e
      | Inr y \<Rightarrow> (case mapRaising f xs of Inl e \<Rightarrow> Inl e | Inr ys \<Rightarrow> Inr (y # ys)))"

text \<open>
  The text decoder is the platform's \<^verbatim>\<open>TextDecoder("utf-8")\<close>, which never raises.
  The parameter \<open>decode\<close> stands for
  \<^verbatim>\<open>decoder.decode(nameData).replaceAll("\x00", "")\<close>.
\<close>

definition getCharacterNames :: "(bytes \<Rightarrow> 'n) \<Rightarrow> bytes \<Rightarrow> jsException + 'n list" where
  "getCharacterNames decode file =
     mapRaising (\<lambda>offset. case nameData file offset of
                             Inl e \<Rightarrow> Inl e
                           | Inr d \<Rightarrow> Inr (decode d)) nameOffsets"

subsection \<open>getInventory\<close>

text \<open>
  \<^verbatim>\<open>getInventory\<close> writes \<^verbatim>\<open>this.isDlcFile\<close> when a marker is found, also when
  it then returns \<^verbatim>\<open>null\<close> for want of the end pattern: the parser state is passed
  through and returned.
\<close>

definition getInventory :: "parser \<Rightarrow> bytes \<Rightarrow> bytes option \<times> parser" where
  "getInventory p slot =
     (let found =
        (case findPattern slot PATTERN_NORMAL of
           Some i \<Rightarrow> Some (i + length PATTERN_NORMAL + 8, p\<lparr>isDlcFile := False\<rparr>)
         | None \<Rightarrow>
             (case findPattern slot PATTERN_DLC of
                Some i \<Rightarrow> Some (i + length PATTERN_DLC + 3, p\<lparr>isDlcFile := True\<rparr>)
              | None \<Rightarrow> None))
      in case found of
           None \<Rightarrow> (None, p)
         | Some (index, p') \<Rightarrow>
             (let endPattern = replicate 50 0
              in case findPattern (subarray slot index (length slot)) endPattern of
                   None \<Rightarrow> (None, p')
                 | Some endIndex \<Rightarrow>
                     (Some (subarray slot index (index + endIndex + 6)), p')))"

subsection \<open>splitIntoChunks\<close>

text \<open>
  The loop advances \<open>i\<close> by \<open>chunkSize\<close>; with \<open>chunkSize = 0\<close> and a non-empty array
  it never ends, so the function is partial and \<open>None\<close> stands for not returning.
\<close>

partial_function (option) splitIntoChunksLoop ::
  "nat \<Rightarrow> 'a list list \<Rightarrow> 'a list \<Rightarrow> nat \<Rightarrow> 'a list list option" where
  "splitIntoChunksLoop i chunks array chunkSize =
     (if i < length array then
        splitIntoChunksLoop (i + chunkSize) (chunks @ [slice_js array i (i + chunkSize)])
          array chunkSize
      else Some chunks)"

declare splitIntoChunksLoop.simps [code]

definition splitIntoChunks :: "'a list \<Rightarrow> nat \<Rightarrow> 'a list list option" where
  "splitIntoChunks array chunkSize = splitIntoChunksLoop 0 [] array chunkSize"

subsection \<open>decimalToHex, convertIdToHex\<close>

text \<open>
  \<^verbatim>\<open>Number(decimal).toString(16)\<close> of a non-negative integer: its lower-case
  hexadecimal digits without leading zeros. Of \<^verbatim>\<open>undefined\<close> it is the text
  \<^verbatim>\<open>NaN\<close>.
\<close>

definition hexDigit :: "nat \<Rightarrow> char" where
  "hexDigit d = ''0123456789abcdef'' ! d"

function toString16 :: "nat \<Rightarrow> string" where
  "toString16 n =
     (if n < 16 then [hexDigit n] else toString16 (n div 16) @ [hexDigit (n mod 16)])"
  by pat_completeness auto
termination
  by (relation "measure id") auto

declare toString16.simps [simp del]

function padLoop :: "string \<Rightarrow> nat \<Rightarrow> string" where
  "padLoop hex padding =
     (if length hex < padding then padLoop (CHR ''0'' # hex) padding else hex)"
  by pat_completeness auto
termination
  by (relation "measure (\<lambda>(hex, padding). padding - length hex)") auto

declare padLoop.simps [simp del]

definition decimalToHex :: "byte option \<Rightarrow> nat \<Rightarrow> string" where
  "decimalToHex decimal padding =
     padLoop (case decimal of None \<Rightarrow> ''NaN'' | Some b \<Rightarrow> toString16 (unat b)) padding"

text \<open>
  \<^verbatim>\<open>toUpperCase\<close> on the characters that reach it here (digits, \<open>a\<close> to \<open>f\<close> and
  \<^verbatim>\<open>NaN\<close>): the ASCII letters are raised, everything else is kept.
\<close>

definition toUpperChar :: "char \<Rightarrow> char" where
  "toUpperChar c =
     (let n = (of_char c :: nat) in if 97 \<le> n \<and> n \<le> 122 then char_of (n - 32) else c)"

definition toUpperCase :: "string \<Rightarrow> string" where
  "toUpperCase s = map toUpperChar s"

definition convertIdToHex :: "bytes \<Rightarrow> string" where
  "convertIdToHex idBytes =
     (let reversed = rev (slice_js idBytes 0 4);
          hexId = foldl (\<lambda>hexId i. hexId @ decimalToHex (at_index reversed (int i)) 2)
                    [] [0..<4]
      in toUpperCase hexId)"

subsection \<open>parseInventory, getSlotNames\<close>

text \<open>
  The message of a result with \<^verbatim>\<open>success: false\<close>: one of the two literal texts, or
  the \<^verbatim>\<open>message\<close> of the exception that the \<^verbatim>\<open>catch\<close> block received (its
  wording is the engine's). A result with \<^verbatim>\<open>success: true\<close> carries
  \<^verbatim>\<open>ids\<close>, \<^verbatim>\<open>isDlc\<close>, \<^verbatim>\<open>characterName\<close> (\<^verbatim>\<open>undefined\<close> is \<open>None\<close>)
  and \<^verbatim>\<open>totalItems\<close>, in this order.
\<close>

datatype errorMessage = Message string | ExceptionMessage jsException

datatype 'n parseResult =
    Success "string list" bool "'n option" nat
  | Failure errorMessage

text \<open>
  The chunking and conversion steps of \<^verbatim>\<open>parseInventory\<close>
  (\<^verbatim>\<open>Array.from\<close>, \<^verbatim>\<open>chunkSize\<close>, \<^verbatim>\<open>splitIntoChunks\<close>, \<^verbatim>\<open>chunks.map\<close>).
\<close>

definition decodeChunks :: "bytes \<Rightarrow> bool \<Rightarrow> string list option" where
  "decodeChunks inventoryData dlc =
     (let inventory = inventoryData;
          chunkSize = (if dlc then 8 else 16)
      in case splitIntoChunks inventory chunkSize of
           None \<Rightarrow> None
         | Some chunks \<Rightarrow> Some (map convertIdToHex chunks))"

text \<open>
  The steps of \<^verbatim>\<open>parseInventory\<close> on the selected slot, from \<^verbatim>\<open>getInventory\<close>
  to the result object. A \<^verbatim>\<open>Uint8Array\<close> is truthy even when empty, so only
  \<^verbatim>\<open>null\<close> takes the "no inventory" branch.
\<close>

definition parseSlot ::
  "parser \<Rightarrow> 'n option \<Rightarrow> bytes \<Rightarrow> ('n parseResult \<times> parser) option" where
  "parseSlot p characterName slot =
     (case getInventory p slot of
        (None, p') \<Rightarrow>
          Some (Failure (Message ''Could not find inventory data in slot''), p')
      | (Some inventoryData, p') \<Rightarrow>
          (case decodeChunks inventoryData (isDlcFile p') of
             None \<Rightarrow> None
           | Some itemIds \<Rightarrow>
               Some (Success itemIds (isDlcFile p') characterName (length itemIds), p')))"

text \<open>
  \<^verbatim>\<open>parseInventory\<close>: everything raised inside the \<^verbatim>\<open>try\<close> block is caught and
  returned as a failure. \<^verbatim>\<open>slots[slotIndex]\<close> outside the array is
  \<^verbatim>\<open>undefined\<close>, and \<^verbatim>\<open>findPattern\<close> then raises a \<^verbatim>\<open>TypeError\<close> on
  \<^verbatim>\<open>buffer.byteLength\<close>. The result is \<open>None\<close> only if the chunk loop does not return.
\<close>

definition parseInventory ::
  "(bytes \<Rightarrow> 'n) \<Rightarrow> parser \<Rightarrow> bytes \<Rightarrow> int \<Rightarrow> ('n parseResult \<times> parser) option" where
  "parseInventory decode p file slotIndex =
     (if \<not> validateFile file then
        Some (Failure (Message ''Invalid save file format''), p)
      else
        (let p1 = p\<lparr>fileData := Some file\<rparr>
         in case getCharacterNames decode file of
              Inl e \<Rightarrow> Some (Failure (ExceptionMessage e), p1)
            | Inr characterNames \<Rightarrow>
                (let characterName = at_index characterNames slotIndex;
                     slots = getSlots file
                 in case at_index slots slotIndex of
                      None \<Rightarrow> Some (Failure (ExceptionMessage TypeError), p1)
                    | Some slot \<Rightarrow> parseSlot p1 characterName slot)))"

datatype 'n namesResult = Names "'n list" | NamesFailure errorMessage

definition getSlotNames :: "(bytes \<Rightarrow> 'n) \<Rightarrow> bytes \<Rightarrow> 'n namesResult" where
  "getSlotNames decode file =
     (if \<not> validateFile file then NamesFailure (Message ''Invalid save file format'')
      else case getCharacterNames decode file of
             Inl e \<Rightarrow> NamesFailure (ExceptionMessage e)
           | Inr names \<Rightarrow> Names names)"

section \<open>tracker.js\<close>

subsection \<open>Built-ins the tracker uses\<close>

text \<open>
  \<^verbatim>\<open>parseInt(string, 16)\<close>: leading white space is skipped, then an optional sign,
  then an optional \<^verbatim>\<open>0x\<close> or \<^verbatim>\<open>0X\<close>, then the longest run of hexadecimal digits
  is read; without a digit the result is \<^verbatim>\<open>NaN\<close>, here \<open>None\<close>. The result is kept
  as an exact integer. The Number that JavaScript returns is this integer rounded to a
  double, which is the integer itself below \<open>2 ^ 53\<close>; rounding is monotone and every
  bound of \<^verbatim>\<open>determineCategory\<close> is below \<open>2 ^ 32\<close>, so the comparisons there have
  the same outcome on both.
\<close>

definition isWhiteSpace :: "char \<Rightarrow> bool" where
  "isWhiteSpace c = ((of_char c :: nat) \<in> {9, 10, 11, 12, 13, 32, 160})"

definition hexDigitValue :: "char \<Rightarrow> nat option" where
  "hexDigitValue c =
     (let n = (of_char c :: nat)
      in if 48 \<le> n \<and> n \<le> 57 then Some (n - 48)
         else if 65 \<le> n \<and> n \<le> 70 then Some (n - 55)
         else if 97 \<le> n \<and> n \<le> 102 then Some (n - 87)
         else None)"

fun parseDigits16 :: "nat option \<Rightarrow> string \<Rightarrow> nat option" where
  "parseDigits16 acc [] = acc"
| "parseDigits16 acc (c # cs) =
     (case hexDigitValue c of
        None \<Rightarrow> acc
      | Some d \<Rightarrow> parseDigits16 (Some (16 * (case acc of None \<Rightarrow> 0 | Some a \<Rightarrow> a) + d)) cs)"

definition parseInt16 :: "string \<Rightarrow> int option" where
  "parseInt16 s =
     (let t = dropWhile isWhiteSpace s;
          sign = (case t of [] \<Rightarrow> 1 | c # _ \<Rightarrow> if c = CHR ''-'' then - 1 else (1 :: int));
          u = (case t of [] \<Rightarrow> [] | c # r \<Rightarrow> if c = CHR ''-'' \<or> c = CHR ''+'' then r else t);
          v = (case u of
                 c # x # r \<Rightarrow> if c = CHR ''0'' \<and> (x = CHR ''x'' \<or> x = CHR ''X'') then r else u
               | _ \<Rightarrow> u)
      in map_option (\<lambda>n. sign * int n) (parseDigits16 None v))"

text \<open>
  \<^verbatim>\<open>toLowerCase\<close> on code units below 256: the letters A to Z and the Latin-1
  capital letters are lowered.
\<close>

definition toLowerChar :: "char \<Rightarrow> char" where
  "toLowerChar c =
     (let n = (of_char c :: nat)
      in if (65 \<le> n \<and> n \<le> 90) \<or> (192 \<le> n \<and> n \<le> 222 \<and> n \<noteq> 215) then char_of (n + 32)
         else c)"

definition toLowerCase :: "string \<Rightarrow> string" where
  "toLowerCase s = map toLowerChar s"

text \<open>\<^verbatim>\<open>s.includes(t)\<close>: \<open>t\<close> occurs in \<open>s\<close> as a contiguous substring.\<close>

fun includes_str :: "string \<Rightarrow> string \<Rightarrow> bool" where
  "includes_str [] t = (t = [])"
| "includes_str (c # cs) t = (prefix t (c # cs) \<or> includes_str cs t)"

text \<open>
  Numbers are IEEE 754 doubles. \<open>toDouble x\<close> is the double nearest to the rational
  \<open>x\<close>, ties to the even significand of 53 bits; the quotient and the product of
  \<^verbatim>\<open>calculateStats\<close> are the exact results rounded this way. Their operands are array
  lengths and the constant 100, so no overflow and no subnormal result arises.
  \<^verbatim>\<open>Math.round\<close> gives the nearest integer, the larger one on a tie.
\<close>

definition floorLog2 :: "rat \<Rightarrow> int" where
  "floorLog2 x =
     (let (p, q) = quotient_of x;
          k = int (floorlog 2 (nat p)) - int (floorlog 2 (nat q))
      in if 2 powi k \<le> x then k else k - 1)"

definition roundTiesToEven :: "rat \<Rightarrow> int" where
  "roundTiesToEven q =
     (let f = \<lfloor>q\<rfloor>; r = q - of_int f
      in if r < 1 / 2 then f else if 1 / 2 < r then f + 1 else if even f then f else f + 1)"

definition toDouble :: "rat \<Rightarrow> rat" where
  "toDouble x =
     (if x = 0 then 0
      else (let e = floorLog2 \<bar>x\<bar>; ulp = 2 powi (e - 52)
            in of_int (roundTiesToEven (x / ulp)) * ulp))"

definition Math_round :: "rat \<Rightarrow> int" where
  "Math_round x = \<lfloor>x + 1 / 2\<rfloor>"

subsection \<open>Catalog and enriched items\<close>

text \<open>
  The merged location data, as \<^verbatim>\<open>Object.entries\<close> enumerates it: regions, their
  subregions, their items by identifier. An entry has a name and may have a type, a hint
  and the flag \<^verbatim>\<open>multiple\<close>.
\<close>

record itemData =
  entry_name :: string
  entry_type :: "string option"
  entry_hint :: "string option"
  entry_multiple :: "bool option"

type_synonym locationData = "(string \<times> (string \<times> (string \<times> itemData) list) list) list"

record enrichedItem =
  item_id :: string
  item_name :: string
  owned :: bool
  region :: string
  subregion :: string
  item_type :: string
  hint :: string
  farmable :: bool
  wikiUrl :: string

subsection \<open>generateWikiUrl\<close>

text \<open>
  The first \<^verbatim>\<open>replace\<close> removes a match of \<^verbatim>\<open>/ \+\d+$/\<close>: a space, a plus sign and
  one or more digits at the end of the name. The second turns every space into a plus
  sign.
\<close>

definition isDigit :: "char \<Rightarrow> bool" where
  "isDigit c = (48 \<le> (of_char c :: nat) \<and> (of_char c :: nat) \<le> 57)"

definition matchesUpgradeSuffix :: "string \<Rightarrow> bool" where
  "matchesUpgradeSuffix s =
     (case s of
        a # b # ds \<Rightarrow> a = CHR '' '' \<and> b = CHR ''+'' \<and> ds \<noteq> [] \<and> list_all isDigit ds
      | _ \<Rightarrow> False)"

fun removeUpgradeSuffix :: "string \<Rightarrow> string" where
  "removeUpgradeSuffix [] = []"
| "removeUpgradeSuffix (c # cs) =
     (if matchesUpgradeSuffix (c # cs) then [] else c # removeUpgradeSuffix cs)"

definition generateWikiUrl :: "string \<Rightarrow> string" where
  "generateWikiUrl itemName =
     (let cleanName = removeUpgradeSuffix itemName;
          urlName = map (\<lambda>c. if c = CHR '' '' then CHR ''+'' else c) cleanName
      in ''https://eldenring.wiki.fextralife.com/'' @ urlName)"

subsection \<open>crossReference\<close>

text \<open>
  \<^verbatim>\<open>a || b\<close> on an optional string: \<^verbatim>\<open>undefined\<close> and the empty string are
  falsy.
\<close>

definition orElse :: "string option \<Rightarrow> string \<Rightarrow> string" where
  "orElse a b = (case a of None \<Rightarrow> b | Some s \<Rightarrow> if s = [] then b else s)"

definition enrich :: "string list \<Rightarrow> string \<Rightarrow> string \<Rightarrow> string \<times> itemData \<Rightarrow> enrichedItem" where
  "enrich inventoryIds r s entry =
     (case entry of (itemId, d) \<Rightarrow>
        \<lparr>item_id = itemId,
         item_name = entry_name d,
         owned = (itemId \<in> set inventoryIds),
         region = r,
         subregion = s,
         item_type = orElse (entry_type d) ''unknown'',
         hint = orElse (entry_hint d) [],
         farmable = (case entry_multiple d of None \<Rightarrow> False | Some m \<Rightarrow> m),
         wikiUrl = generateWikiUrl (entry_name d)\<rparr>)"

definition crossReference :: "string list \<Rightarrow> locationData \<Rightarrow> enrichedItem list" where
  "crossReference inventoryIds locationData =
     concat (map (\<lambda>(r, subregions).
       concat (map (\<lambda>(s, items). map (enrich inventoryIds r s) items) subregions))
       locationData)"

subsection \<open>determineCategory\<close>

definition determineCategory :: "string \<Rightarrow> string" where
  "determineCategory itemId =
     (case parseInt16 itemId of
        None \<Rightarrow> ''Other''
      | Some idv \<Rightarrow>
          if idv \<ge> 0x00F42400 \<and> idv \<le> 0x017D7840 then ''Weapons''
          else if idv \<ge> 0x10000000 \<and> idv \<le> 0x14000000 then ''Armor''
          else if idv \<ge> 0x20000000 \<and> idv \<le> 0x24000000 then ''Talismans''
          else if idv \<ge> 0x40000000 \<and> idv \<le> 0x48000000 then ''Magic''
          else if idv \<ge> 0x80000000 \<and> idv \<le> 0x88000000 then ''Ashes of War''
          else if idv \<ge> 0x90000000 \<and> idv \<le> 0x98000000 then ''Spirit Ashes''
          else if idv \<ge> 0x400007F0 \<and> idv \<le> 0x40000850 then ''Bell Bearings''
          else if idv \<ge> 0x40002400 \<and> idv \<le> 0x40002500 then ''Cookbooks''
          else if idv \<ge> 0x40000BC0 \<and> idv \<le> 0x40000BF0 then ''Crystal Tears''
          else if idv \<ge> 0x40000000 \<and> idv \<le> 0x40001000 then ''Key Items''
          else ''Other'')"

subsection \<open>calculateStats\<close>

record tally =
  total_count :: nat
  owned_count :: nat
  missing_count :: nat
  percentage :: int

definition percentageOf :: "nat \<Rightarrow> nat \<Rightarrow> int" where
  "percentageOf ownedN totalN =
     (if totalN > 0 then Math_round (toDouble (toDouble (of_nat ownedN / of_nat totalN) * 100))
      else 0)"

text \<open>
  The breakdowns are objects created as \<^verbatim>\<open>{}\<close> and filled by key. A key that names a
  property inherited from \<^verbatim>\<open>Object.prototype\<close> reads as truthy before anything is
  stored, so no entry of its own is ever created for it; no category has such a name, a
  region of the catalog could.
\<close>

definition inheritedKeys :: "string list" where
  "inheritedKeys =
     [''constructor'', ''__proto__'', ''hasOwnProperty'', ''isPrototypeOf'',
      ''propertyIsEnumerable'', ''toLocaleString'', ''toString'', ''valueOf'',
      ''__defineGetter__'', ''__defineSetter__'', ''__lookupGetter__'', ''__lookupSetter__'']"

definition countItem :: "(string \<rightharpoonup> tally) \<Rightarrow> string \<Rightarrow> bool \<Rightarrow> (string \<rightharpoonup> tally)" where
  "countItem stats key isOwned =
     (if key \<in> set inheritedKeys then stats
      else (let t = (case stats key of
                       None \<Rightarrow> \<lparr>total_count = 0, owned_count = 0, missing_count = 0, percentage = 0\<rparr>
                     | Some t \<Rightarrow> t);
                t1 = t\<lparr>total_count := total_count t + 1\<rparr>
            in stats(key \<mapsto> (if isOwned then t1\<lparr>owned_count := owned_count t1 + 1\<rparr>
                               else t1\<lparr>missing_count := missing_count t1 + 1\<rparr>))))"

definition withPercentages :: "(string \<rightharpoonup> tally) \<Rightarrow> (string \<rightharpoonup> tally)" where
  "withPercentages stats =
     (\<lambda>key. map_option (\<lambda>t. t\<lparr>percentage := percentageOf (owned_count t) (total_count t)\<rparr>) (stats key))"

definition calculateCategoryStats :: "enrichedItem list \<Rightarrow> (string \<rightharpoonup> tally)" where
  "calculateCategoryStats enrichedItems =
     withPercentages
       (foldl (\<lambda>categories item. countItem categories (determineCategory (item_id item)) (owned item))
          Map.empty enrichedItems)"

definition calculateRegionalStats :: "enrichedItem list \<Rightarrow> (string \<rightharpoonup> tally)" where
  "calculateRegionalStats enrichedItems =
     withPercentages
       (foldl (\<lambda>regions item. countItem regions (region item) (owned item)) Map.empty enrichedItems)"

record stats =
  summary :: tally
  categories :: "string \<rightharpoonup> tally"
  regions :: "string \<rightharpoonup> tally"

definition calculateStats :: "enrichedItem list \<Rightarrow> stats" where
  "calculateStats enrichedItems =
     (let totalN = length enrichedItems;
          ownedN = length (filter owned enrichedItems);
          missingN = totalN - ownedN;
          pct = percentageOf ownedN totalN
      in \<lparr>summary = \<lparr>total_count = totalN, owned_count = ownedN, missing_count = missingN, percentage = pct\<rparr>,
          categories = calculateCategoryStats enrichedItems,
          regions = calculateRegionalStats enrichedItems\<rparr>)"

subsection \<open>filterItems\<close>

record criteria =
  status :: "string option"
  by_region :: "string option"
  by_category :: "string option"
  search :: "string option"

text \<open>A criterion is applied when it is truthy: present and not the empty string.\<close>

definition truthy :: "string option \<Rightarrow> bool" where
  "truthy a = (case a of None \<Rightarrow> False | Some s \<Rightarrow> s \<noteq> [])"

definition filterItems :: "enrichedItem list \<Rightarrow> criteria \<Rightarrow> enrichedItem list" where
  "filterItems enrichedItems c =
     (let filtered = enrichedItems;
          filtered =
            (if status c = Some ''owned'' then filter (\<lambda>item. owned item) filtered
             else if status c = Some ''missing'' then filter (\<lambda>item. \<not> owned item) filtered
             else filtered);
          filtered =
            (if truthy (by_region c) then filter (\<lambda>item. Some (region item) = by_region c) filtered
             else filtered);
          filtered =
            (if truthy (by_category c)
             then filter (\<lambda>item. Some (determineCategory (item_id item)) = by_category c) filtered
             else filtered);
          filtered =
            (case search c of
               None \<Rightarrow> filtered
             | Some s \<Rightarrow>
                 if s = [] then filtered
                 else (let searchLower = toLowerCase s
                       in filter (\<lambda>item. includes_str (toLowerCase (item_name item)) searchLower)
                            filtered))
      in filtered)"

section \<open>Notions used to state the properties\<close>

text \<open>The pattern occurs in the buffer at offset \<open>i\<close>.\<close>

definition occursAt :: "bytes \<Rightarrow> bytes \<Rightarrow> nat \<Rightarrow> bool" where
  "occursAt buffer pattern i \<longleftrightarrow> pattern \<noteq> [] \<and> take (length pattern) (drop i buffer) = pattern"

text \<open>
  The ten literal slot windows of \<^verbatim>\<open>getSlots\<close> start at \<open>0x310\<close> and are
  \<open>0x280010\<close> apart; each is \<open>0x280000\<close> bytes long.
\<close>

definition slotStart :: "nat \<Rightarrow> nat" where
  "slotStart i = 0x310 + i * 0x280010"

text \<open>
  The identifier of a record as the specification words it: the first four bytes in
  reversed order, each as two upper-case hexadecimal digits.
\<close>

definition upperHexDigit :: "nat \<Rightarrow> char" where
  "upperHexDigit d = ''0123456789ABCDEF'' ! d"

definition hexByte :: "byte \<Rightarrow> string" where
  "hexByte b = [upperHexDigit (unat b div 16), upperHexDigit (unat b mod 16)]"

definition identifierOf :: "bytes \<Rightarrow> string" where
  "identifierOf r = concat (map hexByte (rev (take 4 r)))"

text \<open>
  Reading an identifier back: two hexadecimal digits per byte. This direction is not in
  the source; it states the round trip of the identifier derivation.
\<close>

fun hexToBytes :: "string \<Rightarrow> bytes option" where
  "hexToBytes [] = Some []"
| "hexToBytes [c] = None"
| "hexToBytes (h # l # rest) =
     (case (hexDigitValue h, hexDigitValue l, hexToBytes rest) of
        (Some a, Some b, Some bs) \<Rightarrow> Some (of_nat (16 * a + b) # bs)
      | _ \<Rightarrow> None)"



text \<open>
  A file of 866 bytes: the signature, zero bytes up to the start of the first slot
  window, and there a standard marker, 8 skipped bytes, one record and the terminator.
\<close>

definition truncatedFile :: bytes where
  "truncatedFile =
     FILE_SIGNATURE @ replicate 780 0 @
     PATTERN_NORMAL @ replicate 8 0 @ [0xEF, 0xBE, 0xAD, 0xDE] @ replicate 62 0"

text \<open>
  Putting two lists back together by position: the flags say, position by position,
  from which of the two the next element comes.
\<close>

fun interleaveBy :: "bool list \<Rightarrow> 'a list \<Rightarrow> 'a list \<Rightarrow> 'a list" where
  "interleaveBy [] xs ys = []"
| "interleaveBy (True # fs) (x # xs) ys = x # interleaveBy fs xs ys"
| "interleaveBy (False # fs) xs (y # ys) = y # interleaveBy fs xs ys"
| "interleaveBy (True # fs) [] ys = []"
| "interleaveBy (False # fs) xs [] = []"

text \<open>The (region, subregion, identifier) triples of a catalog, in its order.\<close>

definition catalogTriples :: "locationData \<Rightarrow> (string \<times> string \<times> string) list" where
  "catalogTriples locationData =
     concat (map (\<lambda>(r, subregions).
       concat (map (\<lambda>(s, items). map (\<lambda>(itemId, d). (r, s, itemId)) items) subregions))
       locationData)"

text \<open>A catalog of one region, one subregion and two items.\<close>

definition exampleCatalog :: locationData where
  "exampleCatalog =
     [(''RegionA'',
        [(''SubA'',
           [(''DEADBEEF'',
               \<lparr>entry_name = ''Test Sword'', entry_type = None, entry_hint = None,
                entry_multiple = None\<rparr>),
            (''00F42400'',
               \<lparr>entry_name = ''Dagger +1'', entry_type = Some ''chest'', entry_hint = None,
                entry_multiple = Some False\<rparr>)])])]"

text \<open>
  The breakdown of a list of items by a key (the category of an item, or its region), in
  closed form: a key has an entry when at least one item has it and it does not name a
  property inherited from \<^verbatim>\<open>Object.prototype\<close>; the entry counts the items with that
  key, the owned and the missing ones among them, and holds the percentage of the two
  counts.
\<close>

definition tallyBy :: "(enrichedItem \<Rightarrow> string) \<Rightarrow> enrichedItem list \<Rightarrow> string \<Rightarrow> tally option" where
  "tallyBy f items key =
     (let xs = filter (\<lambda>item. f item = key) items
      in if key \<in> set inheritedKeys \<or> xs = [] then None
         else Some \<lparr>total_count = length xs,
                    owned_count = length (filter owned xs),
                    missing_count = length (filter (\<lambda>item. \<not> owned item) xs),
                    percentage = percentageOf (length (filter owned xs)) (length xs)\<rparr>)"

text \<open>
  A catalog of one region and 40 items with distinct identifiers: 23 in one subregion,
  17 in another.
\<close>

definition tieOwnedIds :: "string list" where
  "tieOwnedIds = map (\<lambda>n. ''100000'' @ [upperHexDigit (n div 16), upperHexDigit (n mod 16)]) [0..<23]"

definition tieMissingIds :: "string list" where
  "tieMissingIds = map (\<lambda>n. ''200000'' @ [upperHexDigit (n div 16), upperHexDigit (n mod 16)]) [0..<17]"

definition tieCatalog :: locationData where
  "tieCatalog =
     [(''RegionA'',
        [(''SubA'', map (\<lambda>i. (i, \<lparr>entry_name = ''Armor piece'', entry_type = None,
                                   entry_hint = None, entry_multiple = None\<rparr>)) tieOwnedIds),
         (''SubB'', map (\<lambda>i. (i, \<lparr>entry_name = ''Talisman'', entry_type = None,
                                   entry_hint = None, entry_multiple = None\<rparr>)) tieMissingIds)])]"
section \<open>Properties of the binary parser\<close>

lemma bufferEqualLoop_iff:
  "length dv1 = length dv2 \<Longrightarrow> bufferEqualLoop i dv1 dv2 \<longleftrightarrow> drop i dv1 = drop i dv2"
proof (induction i dv1 dv2 rule: bufferEqualLoop.induct)
  case (1 i dv1 dv2)
  show ?case
  proof (cases "i < length dv1")
    case True
    then have d1: "drop i dv1 = dv1 ! i # drop (Suc i) dv1"
      by (simp add: Cons_nth_drop_Suc)
    from True 1 have d2: "drop i dv2 = dv2 ! i # drop (Suc i) dv2"
      by (simp add: Cons_nth_drop_Suc)
    show ?thesis
    proof (cases "sint (dv1 ! i) = sint (dv2 ! i)")
      case eq: True
      then have "dv1 ! i = dv2 ! i" by (simp add: signed_word_eqI)
      with 1 True eq d1 d2 show ?thesis
        by (subst bufferEqualLoop.simps) simp
    next
      case False
      then have "dv1 ! i \<noteq> dv2 ! i" by auto
      with True False d1 d2 show ?thesis
        by (subst bufferEqualLoop.simps) simp
    qed
  next
    case False
    with 1 show ?thesis
      by (subst bufferEqualLoop.simps) simp
  qed
qed

lemma bufferEqual_iff: "bufferEqual buf1 buf2 \<longleftrightarrow> buf1 = buf2"
  by (auto simp: bufferEqual_def bufferEqualLoop_iff)

lemma occursAt_less: "occursAt buffer pattern i \<Longrightarrow> i < length buffer"
  by (cases "i < length buffer") (auto simp: occursAt_def)

lemma findPattern_test:
  assumes "i < length buffer"
  shows "((case pattern of [] \<Rightarrow> False | p0 # _ \<Rightarrow> buffer ! i = p0) \<and>
          bufferEqual (subarray buffer i (i + length pattern)) pattern) \<longleftrightarrow>
         occursAt buffer pattern i"
proof (cases pattern)
  case Nil
  then show ?thesis by (simp add: occursAt_def)
next
  case (Cons p0 ps)
  from assms have "drop i buffer = buffer ! i # drop (Suc i) buffer"
    by (simp add: Cons_nth_drop_Suc)
  with Cons show ?thesis
    by (auto simp: occursAt_def bufferEqual_iff subarray_def)
qed

lemma findPatternLoop_Some:
  "findPatternLoop i buffer pattern = Some m \<longleftrightarrow>
     i \<le> m \<and> occursAt buffer pattern m \<and> (\<forall>j. i \<le> j \<and> j < m \<longrightarrow> \<not> occursAt buffer pattern j)"
proof (induction i buffer pattern rule: findPatternLoop.induct)
  case (1 i buffer pattern)
  let ?test = "(case pattern of [] \<Rightarrow> False | p0 # _ \<Rightarrow> buffer ! i = p0) \<and>
            bufferEqual (subarray buffer i (i + length pattern)) pattern"
  show ?case
  proof (cases "i < length buffer")
    case False
    then have "findPatternLoop i buffer pattern = None"
      by (subst findPatternLoop.simps) (simp only: if_False)
    moreover from False have "\<not> (i \<le> m \<and> occursAt buffer pattern m)"
      using occursAt_less [of buffer pattern m] by auto
    ultimately show ?thesis by auto
  next
    case True
    note test = findPattern_test [OF True, of pattern]
    show ?thesis
    proof (cases "occursAt buffer pattern i")
      case occ: True
      with test have t: ?test by blast
      have "findPatternLoop i buffer pattern = Some i"
        by (subst findPatternLoop.simps) (simp add: True t)
      with occ show ?thesis
        by (auto simp: le_less)
    next
      case nocc: False
      with test have t: "\<not> ?test" by blast
      have eq: "findPatternLoop i buffer pattern = findPatternLoop (i + 1) buffer pattern"
        by (subst findPatternLoop.simps) (simp only: True t if_True if_False)
      have IH: "findPatternLoop (i + 1) buffer pattern = Some m \<longleftrightarrow>
         i + 1 \<le> m \<and> occursAt buffer pattern m \<and> (\<forall>j. i + 1 \<le> j \<and> j < m \<longrightarrow> \<not> occursAt buffer pattern j)"
        by (rule 1 [OF True t])
      have A: "i + 1 \<le> m \<longleftrightarrow> i \<le> m" if "occursAt buffer pattern m"
      proof -
        from that nocc have "i \<noteq> m" by auto
        then show ?thesis by auto
      qed
      have B: "(\<forall>j. i + 1 \<le> j \<and> j < m \<longrightarrow> \<not> occursAt buffer pattern j) \<longleftrightarrow>
               (\<forall>j. i \<le> j \<and> j < m \<longrightarrow> \<not> occursAt buffer pattern j)"
      proof (intro iffI allI impI)
        fix j
        assume a: "\<forall>j. i + 1 \<le> j \<and> j < m \<longrightarrow> \<not> occursAt buffer pattern j" "i \<le> j \<and> j < m"
        show "\<not> occursAt buffer pattern j"
        proof (cases "j = i")
          case True with nocc show ?thesis by simp
        next
          case False with a show ?thesis by simp
        qed
      next
        fix j
        assume "\<forall>j. i \<le> j \<and> j < m \<longrightarrow> \<not> occursAt buffer pattern j" "i + 1 \<le> j \<and> j < m"
        then show "\<not> occursAt buffer pattern j" by simp
      qed
      show ?thesis
        unfolding eq IH B using A by blast
    qed
  qed
qed

lemma findPattern_Some:
  "findPattern buffer pattern = Some m \<longleftrightarrow>
     occursAt buffer pattern m \<and> (\<forall>j<m. \<not> occursAt buffer pattern j)"
  by (simp add: findPattern_def findPatternLoop_Some)

lemma findPattern_None:
  "findPattern buffer pattern = None \<longleftrightarrow> (\<forall>j. \<not> occursAt buffer pattern j)"
proof
  assume n: "findPattern buffer pattern = None"
  show "\<forall>j. \<not> occursAt buffer pattern j"
  proof (rule ccontr)
    assume "\<not> (\<forall>j. \<not> occursAt buffer pattern j)"
    then obtain j where j: "occursAt buffer pattern j" by blast
    let ?m = "LEAST j. occursAt buffer pattern j"
    from j have "occursAt buffer pattern ?m"
      by (rule LeastI)
    moreover have "\<forall>k<?m. \<not> occursAt buffer pattern k"
      using not_less_Least by blast
    ultimately have "occursAt buffer pattern ?m \<and> (\<forall>k<?m. \<not> occursAt buffer pattern k)" ..
    then have "findPattern buffer pattern = Some ?m"
      by (rule findPattern_Some [THEN iffD2])
    with n show False by simp
  qed
next
  assume "\<forall>j. \<not> occursAt buffer pattern j"
  then have "\<And>m. findPattern buffer pattern \<noteq> Some m"
    by (simp add: findPattern_Some)
  then show "findPattern buffer pattern = None"
    by (cases "findPattern buffer pattern") auto
qed

lemma validateFile_iff: "validateFile file \<longleftrightarrow> take 4 file = [66, 78, 68, 52]"
  by (simp add: validateFile_def bufferEqual_iff slice_js_def FILE_SIGNATURE_def)

lemma length_getSlots: "length (getSlots file) = 10"
  by (simp add: getSlots_def)

lemma getSlots_nth:
  assumes "i < 10"
  shows "getSlots file ! i = take 0x280000 (drop (slotStart i) file)"
proof -
  from assms have "i = 0 \<or> i = 1 \<or> i = 2 \<or> i = 3 \<or> i = 4 \<or> i = 5 \<or> i = 6 \<or> i = 7 \<or> i = 8 \<or> i = 9"
    by arith
  then show ?thesis
    by (elim disjE) (simp_all add: getSlots_def subarray_def slotStart_def)
qed

lemma at_index_getSlots:
  "at_index (getSlots file) slotIndex =
     (if 0 \<le> slotIndex \<and> slotIndex \<le> 9 then Some (take 0x280000 (drop (slotStart (nat slotIndex)) file)) else None)"
  by (auto simp: at_index_def length_getSlots getSlots_nth)

lemma nameData_short:
  assumes "length file \<le> offset"
  shows "nameData file offset = Inr []"
  using assms by (simp add: nameData_def slice_js_def)

lemma getCharacterNames_short:
  assumes "length file \<le> 0x1901d0e"
  shows "getCharacterNames decode file = Inr (replicate 10 (decode []))"
proof -
  have "\<forall>offset \<in> set nameOffsets. nameData file offset = Inr []"
    using assms by (auto simp: nameOffsets_def intro!: nameData_short)
  then have "\<And>xs. set xs \<subseteq> set nameOffsets \<Longrightarrow> mapRaising (\<lambda>offset. case nameData file offset of
                             Inl e \<Rightarrow> Inl e
                           | Inr d \<Rightarrow> Inr (decode d)) xs = Inr (replicate (length xs) (decode []))"
    subgoal for xs
      by (induction xs) auto
    done
  from this [of nameOffsets] show ?thesis
    by (simp add: getCharacterNames_def) (simp add: nameOffsets_def)
qed

text \<open>
  C5. A buffer whose first four bytes are not \<open>42 4E 44 34\<close> (also one shorter than
  four bytes) makes \<^verbatim>\<open>parseInventory\<close> and \<^verbatim>\<open>getSlotNames\<close> return the
  failure "Invalid save file format" at once: the result does not depend on the slot
  index or on the name decoder, and the parser state is returned unchanged, the file
  not even stored, so no slot extraction, name decoding or inventory location happens.
\<close>

theorem invalid_signature_fails:
  assumes "take 4 file \<noteq> [0x42, 0x4E, 0x44, 0x34]"
  shows "parseInventory decode p file slotIndex =
           Some (Failure (Message ''Invalid save file format''), p) \<and>
         getSlotNames decode file = NamesFailure (Message ''Invalid save file format'')"
  using assms by (simp add: parseInventory_def getSlotNames_def validateFile_iff)

theorem invalid_signature_fails_witness:
  "take 4 [0x42, 0x4E, 0x44, 0x35, 0x00 :: byte] \<noteq> [0x42, 0x4E, 0x44, 0x34] \<and>
   parseInventory (\<lambda>d. d) \<lparr>isDlcFile = False, fileData = None\<rparr> [0x42, 0x4E, 0x44, 0x35, 0x00] 0 =
      Some (Failure (Message ''Invalid save file format''), \<lparr>isDlcFile = False, fileData = None\<rparr>) \<and>
   getSlotNames (\<lambda>d. d) [0x42, 0x4E, 0x44, 0x35, 0x00] = NamesFailure (Message ''Invalid save file format'')"
proof -
  have h: "take 4 [0x42, 0x4E, 0x44, 0x35, 0x00 :: byte] \<noteq> [0x42, 0x4E, 0x44, 0x34]"
    by simp
  from h invalid_signature_fails [OF h] show ?thesis by blast
qed

text \<open>
  C10. For a file with the \<open>BND4\<close> signature and a slot index outside 0 to 9,
  \<^verbatim>\<open>parseInventory\<close> returns a failure result whose message is that of the caught
  exception: it neither raises nor succeeds.
\<close>

theorem slot_index_out_of_range_fails:
  assumes "validateFile file" and "slotIndex < 0 \<or> 9 < slotIndex"
  shows "\<exists>e. parseInventory decode p file slotIndex =
           Some (Failure (ExceptionMessage e), p\<lparr>fileData := Some file\<rparr>)"
proof (cases "getCharacterNames decode file")
  case (Inl e)
  with assms show ?thesis by (simp add: parseInventory_def)
next
  case (Inr names)
  from assms(2) have "at_index (getSlots file) slotIndex = None"
    by (auto simp: at_index_getSlots)
  with Inr assms(1) show ?thesis by (simp add: parseInventory_def)
qed

theorem slot_index_out_of_range_fails_witness:
  "validateFile [0x42, 0x4E, 0x44, 0x34] \<and>
   (\<exists>e. parseInventory (\<lambda>d. d) \<lparr>isDlcFile = False, fileData = None\<rparr>
          [0x42, 0x4E, 0x44, 0x34] 10 =
        Some (Failure (ExceptionMessage e),
              \<lparr>isDlcFile = False, fileData = Some [0x42, 0x4E, 0x44, 0x34]\<rparr>))"
proof -
  have v: "validateFile [0x42, 0x4E, 0x44, 0x34]"
    by (simp add: validateFile_iff)
  have r: "(10 :: int) < 0 \<or> 9 < (10 :: int)"
    by simp
  from slot_index_out_of_range_fails [OF v r, of "\<lambda>d. d" "\<lparr>isDlcFile = False, fileData = None\<rparr>"] v
  show ?thesis by simp
qed

subsection \<open>Identifier derivation\<close>

lemma nat_less_16_cases:
  assumes "d < (16 :: nat)"
  obtains "d = 0" | "d = 1" | "d = 2" | "d = 3" | "d = 4" | "d = 5" | "d = 6" | "d = 7"
    | "d = 8" | "d = 9" | "d = 10" | "d = 11" | "d = 12" | "d = 13" | "d = 14" | "d = 15"
proof -
  from assms have "d = 0 \<or> d = 1 \<or> d = 2 \<or> d = 3 \<or> d = 4 \<or> d = 5 \<or> d = 6 \<or> d = 7
    \<or> d = 8 \<or> d = 9 \<or> d = 10 \<or> d = 11 \<or> d = 12 \<or> d = 13 \<or> d = 14 \<or> d = 15"
    by arith
  with that show thesis
    by blast
qed

lemma toUpperChar_hexDigit: "d < 16 \<Longrightarrow> toUpperChar (hexDigit d) = upperHexDigit d"
  by (erule nat_less_16_cases) (simp_all add: toUpperChar_def hexDigit_def upperHexDigit_def char_of_eq_iff)

lemma hexDigitValue_upperHexDigit: "d < 16 \<Longrightarrow> hexDigitValue (upperHexDigit d) = Some d"
  by (erule nat_less_16_cases) (simp_all add: hexDigitValue_def upperHexDigit_def)

lemma upperHexDigit_in: "d < 16 \<Longrightarrow> upperHexDigit d \<in> set ''0123456789ABCDEF''"
  by (erule nat_less_16_cases) (simp_all add: upperHexDigit_def)

lemma toString16_small: "n < 16 \<Longrightarrow> toString16 n = [hexDigit n]"
  by (subst toString16.simps) simp

lemma toString16_two: "16 \<le> n \<Longrightarrow> n < 256 \<Longrightarrow> toString16 n = [hexDigit (n div 16), hexDigit (n mod 16)]"
  by (subst toString16.simps) (simp add: toString16_small)

lemma padLoop_two: "padLoop [a, b] 2 = [a, b]"
  by (subst padLoop.simps) simp

lemma padLoop_one: "padLoop [a] 2 = [CHR ''0'', a]"
  by (subst padLoop.simps) (simp add: padLoop_two)

lemma padLoop_NaN: "padLoop ''NaN'' 2 = ''NaN''"
  by (subst padLoop.simps) simp

lemma decimalToHex_byte:
  "decimalToHex (Some b) 2 = [hexDigit (unat b div 16), hexDigit (unat b mod 16)]"
proof -
  have lt: "unat b < 256"
    using unsigned_less [of b, where 'a = nat] by simp
  show ?thesis
  proof (cases "unat b < 16")
    case True
    then show ?thesis
      by (simp add: decimalToHex_def toString16_small padLoop_one hexDigit_def)
  next
    case False
    with lt show ?thesis
      by (simp add: decimalToHex_def toString16_two padLoop_two)
  qed
qed

lemma toUpperCase_decimalToHex: "toUpperCase (decimalToHex (Some b) 2) = hexByte b"
proof -
  have "unat b < 256"
    using unsigned_less [of b, where 'a = nat] by simp
  then have "unat b div 16 < 16" "unat b mod 16 < 16"
    by simp_all
  then show ?thesis
    by (simp add: decimalToHex_byte toUpperCase_def hexByte_def toUpperChar_hexDigit)
qed

lemma toUpperCase_append: "toUpperCase (s @ t) = toUpperCase s @ toUpperCase t"
  by (simp add: toUpperCase_def)

lemma convertIdToHex_four:
  "convertIdToHex (b0 # b1 # b2 # b3 # rest) = hexByte b3 @ hexByte b2 @ hexByte b1 @ hexByte b0"
proof -
  have u: "[0..<4] = [0, 1, 2, 3]"
    by (simp add: upt_rec)
  show ?thesis
    by (simp add: convertIdToHex_def slice_js_def u at_index_def toUpperCase_append
        toUpperCase_decimalToHex)
qed

lemma hexToBytes_hexByte:
  "hexToBytes (hexByte b @ s) = (case hexToBytes s of None \<Rightarrow> None | Some bs \<Rightarrow> Some (b # bs))"
proof -
  have "unat b < 256"
    using unsigned_less [of b, where 'a = nat] by simp
  then have d: "unat b div 16 < 16" "unat b mod 16 < 16"
    by simp_all
  have "of_nat (16 * (unat b div 16) + unat b mod 16) = b"
    by simp
  with d show ?thesis
    by (simp add: hexByte_def hexDigitValue_upperHexDigit split: option.splits)
qed

lemma set_hexByte: "set (hexByte b) \<subseteq> set ''0123456789ABCDEF''"
proof -
  have "unat b < 256"
    using unsigned_less [of b, where 'a = nat] by simp
  then have d: "unat b div 16 < 16" "unat b mod 16 < 16"
    by simp_all
  from upperHexDigit_in [OF d(1)] upperHexDigit_in [OF d(2)] show ?thesis
    by (simp add: hexByte_def)
qed

lemma convertIdToHex_identifierOf:
  assumes "4 \<le> length c"
  shows "convertIdToHex c = identifierOf c"
proof -
  from assms obtain b0 b1 b2 b3 rest where "c = b0 # b1 # b2 # b3 # rest"
    by (auto simp: Suc_le_length_iff eval_nat_numeral)
  then show ?thesis
    by (simp add: convertIdToHex_four identifierOf_def)
qed


text \<open>
  C9. For every sequence of four bytes, \<^verbatim>\<open>convertIdToHex\<close> yields a string of eight
  upper-case hexadecimal digits, and reading that string back as bytes and reversing
  the bytes gives the original four bytes.
\<close>

theorem identifier_round_trip:
  assumes "length idBytes = 4"
  shows "length (convertIdToHex idBytes) = 8 \<and>
         set (convertIdToHex idBytes) \<subseteq> set ''0123456789ABCDEF'' \<and>
         map_option rev (hexToBytes (convertIdToHex idBytes)) = Some idBytes"
proof -
  from assms obtain b0 b1 b2 b3 where bs: "idBytes = [b0, b1, b2, b3]"
    by (auto simp: length_Suc_conv eval_nat_numeral)
  have c: "convertIdToHex idBytes = hexByte b3 @ hexByte b2 @ hexByte b1 @ hexByte b0"
    unfolding bs by (rule convertIdToHex_four)
  have "length (convertIdToHex idBytes) = 8"
    unfolding c by (simp add: hexByte_def)
  moreover have "set (convertIdToHex idBytes) \<subseteq> set ''0123456789ABCDEF''"
    unfolding c using set_hexByte [of b0] set_hexByte [of b1] set_hexByte [of b2] set_hexByte [of b3]
    by (simp only: set_append Un_subset_iff) 
  moreover have "hexToBytes (convertIdToHex idBytes) = Some [b3, b2, b1, b0]"
    unfolding c using hexToBytes_hexByte [of b0 "[]"]
    by (simp add: hexToBytes_hexByte)
  ultimately show ?thesis
    by (simp add: bs)
qed

theorem identifier_round_trip_witness:
  "length [0xEF, 0xBE, 0xAD, 0xDE :: byte] = 4 \<and>
   convertIdToHex [0xEF, 0xBE, 0xAD, 0xDE] = ''DEADBEEF'' \<and>
   map_option rev (hexToBytes ''DEADBEEF'') = Some [0xEF, 0xBE, 0xAD, 0xDE]"
proof -
  have l: "length [0xEF, 0xBE, 0xAD, 0xDE :: byte] = 4"
    by simp
  have c: "convertIdToHex [0xEF, 0xBE, 0xAD, 0xDE] = ''DEADBEEF''"
    by (simp add: convertIdToHex_four hexByte_def upperHexDigit_def)
  from identifier_round_trip [OF l] l c show ?thesis
    by simp
qed

subsection \<open>Chunking\<close>

lemma chunk_index_less:
  assumes "0 < (w :: nat)"
  shows "k * w < n \<longleftrightarrow> k < (n + w - 1) div w"
proof -
  have "(n + w - 1) div w < Suc k \<longleftrightarrow> n + w - 1 < Suc k * w"
    using assms by (simp only: div_less_iff_less_mult)
  then have "(n + w - 1) div w \<le> k \<longleftrightarrow> n + w - 1 < k * w + w"
    by (simp add: less_Suc_eq_le add.commute)
  also have "\<dots> \<longleftrightarrow> n \<le> k * w"
    using assms by arith
  finally show ?thesis
    by auto
qed

lemma splitIntoChunksLoop_closed:
  assumes "0 < chunkSize" and "k \<le> (length array + chunkSize - 1) div chunkSize"
  shows "splitIntoChunksLoop (k * chunkSize) chunks array chunkSize =
           Some (chunks @ map (\<lambda>j. slice_js array (j * chunkSize) (j * chunkSize + chunkSize))
                            [k..<(length array + chunkSize - 1) div chunkSize])"
  using assms(2)
proof (induction "(length array + chunkSize - 1) div chunkSize - k" arbitrary: k chunks)
  case 0
  then have k: "k = (length array + chunkSize - 1) div chunkSize"
    by simp
  then have "\<not> k * chunkSize < length array"
    using chunk_index_less [OF assms(1), of k "length array"] by simp
  moreover have "[k..<(length array + chunkSize - 1) div chunkSize] = []"
    using k by simp
  ultimately show ?case
    by (subst splitIntoChunksLoop.simps) (simp only: if_False map_append list.map append_Nil2)
next
  case (Suc d)
  then have lt: "k < (length array + chunkSize - 1) div chunkSize"
    by simp
  then have c: "k * chunkSize < length array"
    using chunk_index_less [OF assms(1), of k "length array"] by simp
  have step: "k * chunkSize + chunkSize = Suc k * chunkSize"
    by simp
  have IH: "splitIntoChunksLoop (Suc k * chunkSize)
              (chunks @ [slice_js array (k * chunkSize) (k * chunkSize + chunkSize)]) array chunkSize =
            Some ((chunks @ [slice_js array (k * chunkSize) (k * chunkSize + chunkSize)]) @
                  map (\<lambda>j. slice_js array (j * chunkSize) (j * chunkSize + chunkSize))
                    [Suc k..<(length array + chunkSize - 1) div chunkSize])"
    using Suc.hyps(2) lt by (intro Suc.hyps(1)) simp_all
  have "splitIntoChunksLoop (k * chunkSize) chunks array chunkSize =
        splitIntoChunksLoop (k * chunkSize + chunkSize)
          (chunks @ [slice_js array (k * chunkSize) (k * chunkSize + chunkSize)]) array chunkSize"
    by (subst splitIntoChunksLoop.simps) (simp only: c if_True)
  also have "\<dots> = splitIntoChunksLoop (Suc k * chunkSize)
          (chunks @ [slice_js array (k * chunkSize) (k * chunkSize + chunkSize)]) array chunkSize"
    by (simp only: step)
  also note IH
  finally show ?case
    using lt by (simp add: upt_conv_Cons)
qed

lemma splitIntoChunks_closed:
  assumes "0 < chunkSize"
  shows "splitIntoChunks array chunkSize =
           Some (map (\<lambda>j. slice_js array (j * chunkSize) (j * chunkSize + chunkSize))
                   [0..<(length array + chunkSize - 1) div chunkSize])"
  using splitIntoChunksLoop_closed [OF assms, of 0 array "[]"]
  by (simp add: splitIntoChunks_def)

lemma decodeChunks_closed:
  "decodeChunks inventoryData dlc =
     Some (map (\<lambda>j. convertIdToHex (slice_js inventoryData (j * (if dlc then 8 else 16))
                                      (j * (if dlc then 8 else 16) + (if dlc then 8 else 16))))
             [0..<(length inventoryData + (if dlc then 8 else 16) - 1) div (if dlc then 8 else 16)])"
  by (simp add: decodeChunks_def splitIntoChunks_closed comp_def)


text \<open>The chunk loop returns for both chunk sizes in use.\<close>

lemma decodeChunks_returns: "\<exists>ids. decodeChunks inventoryData dlc = Some ids"
  by (simp add: decodeChunks_closed)

lemma decodeChunks_standard:
  "decodeChunks inventoryData False =
     Some (map (\<lambda>j. convertIdToHex (slice_js inventoryData (j * 16) (j * 16 + 16)))
             [0..<(length inventoryData + 15) div 16])"
  using decodeChunks_closed [of inventoryData False] by (simp add: add.commute)

lemma decodeChunks_expansion:
  "decodeChunks inventoryData True =
     Some (map (\<lambda>j. convertIdToHex (slice_js inventoryData (j * 8) (j * 8 + 8)))
             [0..<(length inventoryData + 7) div 8])"
  using decodeChunks_closed [of inventoryData True] by (simp add: add.commute)













subsection \<open>Locating the inventory\<close>

lemma findPattern_at_0:
  assumes "pattern \<noteq> []"
  shows "findPattern (pattern @ rest) pattern = Some 0"
  using assms by (simp add: findPattern_Some occursAt_def)

lemma subarray_to_end: "subarray slot index (length slot) = drop index slot"
  by (simp add: subarray_def)

lemma subarray_from: "subarray slot index (index + n) = take n (drop index slot)"
  by (simp add: subarray_def)

lemma getInventory_cases:
  "getInventory p slot =
     (case findPattern slot PATTERN_NORMAL of
        Some m \<Rightarrow>
          (case findPattern (drop (m + 8 + 8) slot) (replicate 50 0) of
             None \<Rightarrow> (None, p\<lparr>isDlcFile := False\<rparr>)
           | Some e \<Rightarrow> (Some (take (e + 6) (drop (m + 8 + 8) slot)), p\<lparr>isDlcFile := False\<rparr>))
      | None \<Rightarrow>
          (case findPattern slot PATTERN_DLC of
             Some m \<Rightarrow>
               (case findPattern (drop (m + 5 + 3) slot) (replicate 50 0) of
                  None \<Rightarrow> (None, p\<lparr>isDlcFile := True\<rparr>)
                | Some e \<Rightarrow> (Some (take (e + 6) (drop (m + 5 + 3) slot)), p\<lparr>isDlcFile := True\<rparr>))
           | None \<Rightarrow> (None, p)))"
proof -
  have n: "length PATTERN_NORMAL = 8" and d: "length PATTERN_DLC = 5"
    by (simp_all add: PATTERN_NORMAL_def PATTERN_DLC_def)
  have s: "\<And>i e. subarray slot i (i + e + 6) = take (e + 6) (drop i slot)"
    by (simp add: subarray_def)
  show ?thesis
    unfolding getInventory_def Let_def n d subarray_to_end s
    by (simp split: option.splits)
qed

text \<open>
  C6. Where the standard marker first occurs at offset \<open>m\<close>, the range starts at
  \<open>m + 8 + 8\<close> and the layout is Standard (\<^verbatim>\<open>isDlcFile\<close> false). Where the
  standard marker does not occur and the expansion marker first occurs at \<open>m\<close>, the
  range starts at \<open>m + 5 + 3\<close> and the layout is Expansion. In both cases the range
  ends 6 bytes after the first run of 50 zero bytes from its start, and there is no
  range without such a run. Where neither marker occurs, \<^verbatim>\<open>getInventory\<close> returns
  \<^verbatim>\<open>null\<close> and the slot's result is the failure value "Could not find inventory data
  in slot"; nothing is raised.
\<close>

theorem getInventory_marker_order:
  "(occursAt slot PATTERN_NORMAL m \<and> (\<forall>j<m. \<not> occursAt slot PATTERN_NORMAL j) \<longrightarrow>
      getInventory p slot =
        (case findPattern (drop (m + 8 + 8) slot) (replicate 50 0) of
           None \<Rightarrow> (None, p\<lparr>isDlcFile := False\<rparr>)
         | Some e \<Rightarrow> (Some (take (e + 6) (drop (m + 8 + 8) slot)), p\<lparr>isDlcFile := False\<rparr>))) \<and>
   ((\<forall>j. \<not> occursAt slot PATTERN_NORMAL j) \<and>
    occursAt slot PATTERN_DLC m \<and> (\<forall>j<m. \<not> occursAt slot PATTERN_DLC j) \<longrightarrow>
      getInventory p slot =
        (case findPattern (drop (m + 5 + 3) slot) (replicate 50 0) of
           None \<Rightarrow> (None, p\<lparr>isDlcFile := True\<rparr>)
         | Some e \<Rightarrow> (Some (take (e + 6) (drop (m + 5 + 3) slot)), p\<lparr>isDlcFile := True\<rparr>))) \<and>
   ((\<forall>j. \<not> occursAt slot PATTERN_NORMAL j) \<and> (\<forall>j. \<not> occursAt slot PATTERN_DLC j) \<longrightarrow>
      getInventory p slot = (None, p) \<and>
      parseSlot p characterName slot =
        Some (Failure (Message ''Could not find inventory data in slot''), p))"
proof (intro conjI impI)
  assume "occursAt slot PATTERN_NORMAL m \<and> (\<forall>j<m. \<not> occursAt slot PATTERN_NORMAL j)"
  then have "findPattern slot PATTERN_NORMAL = Some m"
    by (simp add: findPattern_Some)
  then show "getInventory p slot =
        (case findPattern (drop (m + 8 + 8) slot) (replicate 50 0) of
           None \<Rightarrow> (None, p\<lparr>isDlcFile := False\<rparr>)
         | Some e \<Rightarrow> (Some (take (e + 6) (drop (m + 8 + 8) slot)), p\<lparr>isDlcFile := False\<rparr>))"
    by (subst getInventory_cases) (simp only: option.case)
next
  assume a: "(\<forall>j. \<not> occursAt slot PATTERN_NORMAL j) \<and>
    occursAt slot PATTERN_DLC m \<and> (\<forall>j<m. \<not> occursAt slot PATTERN_DLC j)"
  then have "findPattern slot PATTERN_NORMAL = None"
    by (simp add: findPattern_None)
  moreover from a have "findPattern slot PATTERN_DLC = Some m"
    by (simp add: findPattern_Some)
  ultimately show "getInventory p slot =
        (case findPattern (drop (m + 5 + 3) slot) (replicate 50 0) of
           None \<Rightarrow> (None, p\<lparr>isDlcFile := True\<rparr>)
         | Some e \<Rightarrow> (Some (take (e + 6) (drop (m + 5 + 3) slot)), p\<lparr>isDlcFile := True\<rparr>))"
    by (subst getInventory_cases) (simp only: option.case)
next
  assume a: "(\<forall>j. \<not> occursAt slot PATTERN_NORMAL j) \<and> (\<forall>j. \<not> occursAt slot PATTERN_DLC j)"
  then have "findPattern slot PATTERN_NORMAL = None" "findPattern slot PATTERN_DLC = None"
    by (simp_all add: findPattern_None)
  then show g: "getInventory p slot = (None, p)"
    by (subst getInventory_cases) (simp only: option.case)
  show "parseSlot p characterName slot =
        Some (Failure (Message ''Could not find inventory data in slot''), p)"
    by (simp add: parseSlot_def g)
qed


theorem getInventory_marker_order_witness:
  "getInventory \<lparr>isDlcFile = True, fileData = None\<rparr>
     (PATTERN_NORMAL @ replicate 8 0 @ [0xEF, 0xBE, 0xAD, 0xDE] @ replicate 62 0) =
     (Some [0xEF, 0xBE, 0xAD, 0xDE, 0, 0, 0, 0, 0, 0], \<lparr>isDlcFile = False, fileData = None\<rparr>) \<and>
   getInventory \<lparr>isDlcFile = False, fileData = None\<rparr>
     (PATTERN_DLC @ replicate 3 0 @ [0xEF, 0xBE, 0xAD, 0xDE] @ replicate 54 0) =
     (Some [0xEF, 0xBE, 0xAD, 0xDE, 0, 0, 0, 0, 0, 0], \<lparr>isDlcFile = True, fileData = None\<rparr>) \<and>
   getInventory \<lparr>isDlcFile = False, fileData = None\<rparr> [0xB0, 0xAD, 0x01] =
     (None, \<lparr>isDlcFile = False, fileData = None\<rparr>)"
proof -
  let ?s1 = "PATTERN_NORMAL @ replicate 8 0 @ [0xEF, 0xBE, 0xAD, 0xDE] @ replicate 62 0"
  let ?s2 = "PATTERN_DLC @ replicate 3 0 @ [0xEF, 0xBE, 0xAD, 0xDE] @ replicate 54 0"
  let ?s3 = "[0xB0, 0xAD, 0x01] :: bytes"
  let ?p = "\<lparr>isDlcFile = True, fileData = None\<rparr>"
  let ?q = "\<lparr>isDlcFile = False, fileData = None\<rparr>"
  have o1: "occursAt ?s1 PATTERN_NORMAL 0 \<and> (\<forall>j<0. \<not> occursAt ?s1 PATTERN_NORMAL j)"
    by (simp add: occursAt_def PATTERN_NORMAL_def)
  have e1: "findPattern (drop (0 + 8 + 8) ?s1) (replicate 50 0) = Some 4"
    by code_simp
  have t1: "take (4 + 6) (drop (0 + 8 + 8) ?s1) = [0xEF, 0xBE, 0xAD, 0xDE, 0, 0, 0, 0, 0, 0]"
    by code_simp
  from getInventory_marker_order [of ?s1 0 ?p] o1
  have "getInventory ?p ?s1 =
      (case findPattern (drop (0 + 8 + 8) ?s1) (replicate 50 0) of
         None \<Rightarrow> (None, ?p\<lparr>isDlcFile := False\<rparr>)
       | Some e \<Rightarrow> (Some (take (e + 6) (drop (0 + 8 + 8) ?s1)), ?p\<lparr>isDlcFile := False\<rparr>))"
    by blast
  then have g1: "getInventory ?p ?s1 = (Some [0xEF, 0xBE, 0xAD, 0xDE, 0, 0, 0, 0, 0, 0], ?q)"
    by (simp only: e1 t1 option.case) simp
  have n2: "findPattern ?s2 PATTERN_NORMAL = None"
    by code_simp
  have o2: "(\<forall>j. \<not> occursAt ?s2 PATTERN_NORMAL j) \<and>
      occursAt ?s2 PATTERN_DLC 0 \<and> (\<forall>j<0. \<not> occursAt ?s2 PATTERN_DLC j)"
    using n2 by (simp add: findPattern_None occursAt_def PATTERN_DLC_def)
  have e2: "findPattern (drop (0 + 5 + 3) ?s2) (replicate 50 0) = Some 4"
    by code_simp
  have t2: "take (4 + 6) (drop (0 + 5 + 3) ?s2) = [0xEF, 0xBE, 0xAD, 0xDE, 0, 0, 0, 0, 0, 0]"
    by code_simp
  from getInventory_marker_order [of ?s2 0 ?q] o2
  have "getInventory ?q ?s2 =
      (case findPattern (drop (0 + 5 + 3) ?s2) (replicate 50 0) of
         None \<Rightarrow> (None, ?q\<lparr>isDlcFile := True\<rparr>)
       | Some e \<Rightarrow> (Some (take (e + 6) (drop (0 + 5 + 3) ?s2)), ?q\<lparr>isDlcFile := True\<rparr>))"
    by blast
  then have g2: "getInventory ?q ?s2 = (Some [0xEF, 0xBE, 0xAD, 0xDE, 0, 0, 0, 0, 0, 0], ?p)"
    by (simp only: e2 t2 option.case) simp
  have n3: "findPattern ?s3 PATTERN_NORMAL = None" "findPattern ?s3 PATTERN_DLC = None"
    by code_simp+
  then have o3: "(\<forall>j. \<not> occursAt ?s3 PATTERN_NORMAL j) \<and> (\<forall>j. \<not> occursAt ?s3 PATTERN_DLC j)"
    by (simp add: findPattern_None)
  from getInventory_marker_order [of ?s3 0 ?q] o3
  have g3: "getInventory ?q ?s3 = (None, ?q)"
    by blast
  from g1 g2 g3 show ?thesis
    by (intro conjI)
qed

text \<open>\<^verbatim>\<open>parseInventory\<close> returns a result for every file and slot index.\<close>

lemma parseSlot_returns: "\<exists>r. parseSlot p characterName slot = Some r"
proof (cases "getInventory p slot")
  case (Pair inv p')
  show ?thesis
  proof (cases inv)
    case None
    with Pair show ?thesis
      by (simp add: parseSlot_def)
  next
    case (Some inventoryData)
    from decodeChunks_returns obtain ids where "decodeChunks inventoryData (isDlcFile p') = Some ids"
      by blast
    with Pair Some show ?thesis
      by (simp add: parseSlot_def)
  qed
qed

lemma parseInventory_returns: "\<exists>r. parseInventory decode p file slotIndex = Some r"
proof -
  have "\<exists>r. parseSlot q n s = Some r" for q :: parser and n :: "'a option" and s
    by (rule parseSlot_returns)
  then show ?thesis
    unfolding parseInventory_def Let_def
    by (auto split: sum.splits option.splits)
qed

subsection \<open>Decoding a slot of records\<close>

lemma drop_concat_fixed:
  assumes "\<forall>r \<in> set records. length r = w"
  shows "drop (w * j) (concat records) = concat (drop j records)"
  using assms
proof (induction records arbitrary: j)
  case Nil
  then show ?case by simp
next
  case (Cons r records)
  show ?case
  proof (cases j)
    case 0
    then show ?thesis by simp
  next
    case (Suc i)
    with Cons show ?thesis by simp
  qed
qed

lemma length_concat_fixed:
  assumes "\<forall>r \<in> set records. length r = w"
  shows "length (concat records) = w * length records"
  using assms by (induction records) simp_all

lemma drop_concat_record:
  assumes "\<forall>r \<in> set records. length r = w" and "j < length records"
  shows "drop (w * j) (concat records @ rest) =
           records ! j @ concat (drop (Suc j) records) @ rest"
proof -
  have "length (concat records) = w * length records"
    using assms(1) by (rule length_concat_fixed)
  with assms(2) have "w * j \<le> length (concat records)"
    by simp
  then have "drop (w * j) (concat records @ rest) = drop (w * j) (concat records) @ rest"
    by simp
  also have "\<dots> = concat (drop j records) @ rest"
    using assms(1) by (simp add: drop_concat_fixed)
  also have "drop j records = records ! j # drop (Suc j) records"
    using assms(2) by (simp add: Cons_nth_drop_Suc)
  finally show ?thesis by simp
qed

lemma occursAt_zeros_nth:
  assumes "occursAt B (replicate n 0) e" and "i < n"
  shows "e + i < length B \<and> B ! (e + i) = 0"
proof -
  from assms(1) have t: "take n (drop e B) = replicate n 0"
    by (simp add: occursAt_def)
  then have "length (take n (drop e B)) = n"
    by simp
  with assms(2) have l: "e + n \<le> length B"
    by simp
  from t have "take n (drop e B) ! i = replicate n 0 ! i"
    by simp
  with assms(2) l show ?thesis
    by simp
qed

text \<open>
  Where the first four bytes of every record are not all zero, a window of 50 bytes that
  starts earlier than 18 bytes before the end of the records holds the first four bytes
  of some record, so it is not a run of zero bytes.
\<close>

lemma nonzero_identifiers_no_early_run:
  assumes recs: "\<forall>r \<in> set records. length r = 16 \<and> take 4 r \<noteq> replicate 4 0"
    and far: "e + 18 < 16 * length records"
  shows "\<not> occursAt (concat records @ replicate 50 0) (replicate 50 0) e"
proof
  let ?N = "length records"
  let ?B = "concat records @ replicate 50 (0 :: byte)"
  let ?Z = "replicate 50 (0 :: byte)"
  assume eocc: "occursAt ?B ?Z e"
  from recs have w: "\<forall>r \<in> set records. length r = 16"
    by simp
  have len: "length (concat records) = 16 * ?N"
    using w by (rule length_concat_fixed)
  define k where "k = (e + 15) div 16"
  have k1: "e \<le> 16 * k" and k2: "16 * k \<le> e + 15"
    unfolding k_def by arith+
  from far k2 have kN: "k < ?N"
    by arith
  have rk: "records ! k \<in> set records"
    using kN by simp
  with recs have lk: "length (records ! k) = 16" and idk: "take 4 (records ! k) \<noteq> replicate 4 0"
    by auto
  have dk: "drop (16 * k) ?B = records ! k @ concat (drop (Suc k) records) @ ?Z"
    using w kN by (rule drop_concat_record)
  have "records ! k ! d = 0" if "d < 4" for d
  proof -
    from k1 k2 that have i: "16 * k + d - e < 50" and i': "e + (16 * k + d - e) = 16 * k + d"
      by arith+
    from occursAt_zeros_nth [OF eocc i] have a: "?B ! (16 * k + d) = 0"
      by (simp only: i')
    have "16 * k \<le> length ?B"
      using len kN by simp
    then have b: "drop (16 * k) ?B ! d = ?B ! (16 * k + d)"
      by (rule nth_drop)
    have "(records ! k @ concat (drop (Suc k) records) @ ?Z) ! d = records ! k ! d"
      using lk that by (simp add: nth_append)
    then have c: "drop (16 * k) ?B ! d = records ! k ! d"
      by (simp only: dk)
    from a b c show ?thesis
      by simp
  qed
  then have "take 4 (records ! k) = replicate 4 0"
    using lk by (intro nth_equalityI) simp_all
  with idk show False
    by contradiction
qed

text \<open>
  Where the last record ends in 6 zero bytes and no run of 50 zero bytes starts earlier
  than 18 bytes before the end of the records, the first such run starts 6 to 18 bytes
  before that end.
\<close>

lemma first_zero_run_bounds:
  assumes w: "\<forall>r \<in> set records. length r = 16"
    and ne: "records \<noteq> []"
    and tail: "drop 10 (last records) = replicate 6 0"
    and early: "\<forall>j. j + 18 < 16 * length records \<longrightarrow>
                  \<not> occursAt (concat records @ replicate 50 0) (replicate 50 0) j"
  shows "\<exists>e. findPattern (concat records @ replicate 50 0) (replicate 50 0) = Some e \<and>
             16 * length records \<le> e + 18 \<and> e + 6 \<le> 16 * length records"
proof -
  let ?N = "length records"
  let ?B = "concat records @ replicate 50 (0 :: byte)"
  let ?Z = "replicate 50 (0 :: byte)"
  from ne have N: "0 < ?N"
    by simp
  have len: "length (concat records) = 16 * ?N"
    using w by (rule length_concat_fixed)
  \<comment> \<open>the window that starts 6 bytes before the end of the records is all zero\<close>
  have lastrec: "drop (16 * (?N - 1)) ?B = last records @ ?Z"
    using drop_concat_record [OF w, of "?N - 1" ?Z] N
    by (simp add: last_conv_nth [OF ne])
  have "16 * ?N - 6 = 10 + 16 * (?N - 1)"
    using N by arith
  then have "drop (16 * ?N - 6) ?B = drop 10 (drop (16 * (?N - 1)) ?B)"
    by (simp only: drop_drop)
  also have "\<dots> = drop 10 (last records @ ?Z)"
    by (simp only: lastrec)
  also have "\<dots> = drop 10 (last records) @ ?Z"
    using w ne by simp
  also have "\<dots> = replicate 6 0 @ ?Z"
    by (simp only: tail)
  finally have d6: "drop (16 * ?N - 6) ?B = replicate 56 0"
    by (simp add: replicate_add [symmetric])
  have "take 50 (drop (16 * ?N - 6) ?B) = ?Z"
    by (simp only: d6) simp
  then have occ: "occursAt ?B ?Z (16 * ?N - 6)"
    unfolding occursAt_def by simp
  then have "findPattern ?B ?Z \<noteq> None"
    by (auto simp: findPattern_None)
  then obtain e where e: "findPattern ?B ?Z = Some e"
    by auto
  then have eocc: "occursAt ?B ?Z e" and least: "\<forall>j<e. \<not> occursAt ?B ?Z j"
    by (simp_all add: findPattern_Some)
  from least occ have up: "e \<le> 16 * ?N - 6"
    by (meson not_le_imp_less)
  have low: "16 * ?N \<le> e + 18"
  proof (rule ccontr)
    assume "\<not> 16 * ?N \<le> e + 18"
    then have "e + 18 < 16 * ?N"
      by simp
    with early have "\<not> occursAt ?B ?Z e"
      by blast
    with eocc show False
      by contradiction
  qed
  from N have "6 \<le> 16 * ?N"
    by arith
  with up have "e + 6 \<le> 16 * ?N"
    by arith
  with e low show ?thesis
    by blast
qed


lemma take4_slice: "take 4 (slice_js X a (a + 16)) = take 4 (drop a X)"
  by (simp add: slice_js_def)

lemma take4_drop_take: "4 \<le> n - a \<Longrightarrow> take 4 (drop a (take n X)) = take 4 (drop a X)"
  by (simp add: drop_take min_def)

lemma length_take_le: "n \<le> length X \<Longrightarrow> length (take n X) = n"
  by simp

lemma take4_chunk:
  assumes w: "\<forall>r \<in> set records. length r = 16"
    and j: "j < length records"
    and e: "16 * length records \<le> e + 18"
  shows "take 4 (slice_js (take (e + 6) (concat records @ rest)) (j * 16) (j * 16 + 16)) =
         take 4 (records ! j)"
proof -
  let ?B = "concat records @ rest"
  have d: "drop (16 * j) ?B = records ! j @ concat (drop (Suc j) records) @ rest"
    using w j by (rule drop_concat_record)
  have lj: "length (records ! j) = 16"
    using w j by simp
  from j e have m: "4 \<le> e + 6 - 16 * j"
    by arith
  have "take 4 (slice_js (take (e + 6) ?B) (j * 16) (j * 16 + 16)) =
        take 4 (drop (j * 16) (take (e + 6) ?B))"
    by (rule take4_slice)
  also have "\<dots> = take 4 (drop (16 * j) (take (e + 6) ?B))"
    by (simp only: mult.commute)
  also have "\<dots> = take 4 (drop (16 * j) ?B)"
    using m by (rule take4_drop_take)
  also have "\<dots> = take 4 (records ! j)"
    using lj by (simp only: d) simp
  finally show ?thesis .
qed

lemma length_chunk:
  assumes w: "\<forall>r \<in> set records. length r = 16"
    and j: "j < length records"
    and e: "16 * length records \<le> e + 18"
  shows "4 \<le> length (slice_js (take (e + 6) (concat records @ rest)) (j * 16) (j * 16 + 16))"
proof -
  have "length (take 4 (slice_js (take (e + 6) (concat records @ rest)) (j * 16) (j * 16 + 16))) = 4"
    using w j by (simp only: take4_chunk [OF w j e]) simp
  then show ?thesis
    by simp
qed

lemma identifierOf_take4: "take 4 c = take 4 r \<Longrightarrow> identifierOf c = identifierOf r"
  by (simp add: identifierOf_def)

text \<open>
  C3, as amended. For every \<open>N \<ge> 1\<close>, take a slot made of the standard marker, 8
  skipped bytes, \<open>N\<close> records of 16 bytes and the terminator of 50 zero bytes, where
  the last record ends in at least 6 zero bytes and no run of 50 zero bytes starts
  earlier than 18 bytes before the end of the records. Decoding it succeeds with the
  Standard layout and exactly \<open>N\<close> identifiers, the \<open>k\<close>-th being the upper-case
  hexadecimal rendering of the first four bytes of the \<open>k\<close>-th record in reversed
  order.
\<close>

theorem standard_records_decode:
  assumes w: "\<forall>r \<in> set records. length r = 16"
    and ne: "records \<noteq> []"
    and tail: "drop 10 (last records) = replicate 6 0"
    and early: "\<forall>j. j + 18 < 16 * length records \<longrightarrow>
                  \<not> occursAt (concat records @ replicate 50 0) (replicate 50 0) j"
    and skip: "length skip = 8"
  shows "parseSlot p characterName (PATTERN_NORMAL @ skip @ concat records @ replicate 50 0) =
           Some (Success (map identifierOf records) False characterName (length records),
                 p\<lparr>isDlcFile := False\<rparr>)"
proof -
  let ?N = "length records"
  let ?B = "concat records @ replicate 50 (0 :: byte)"
  let ?slot = "PATTERN_NORMAL @ skip @ ?B"
  from first_zero_run_bounds [OF w ne tail early]
  obtain e where e: "findPattern ?B (replicate 50 0) = Some e"
    and low: "16 * ?N \<le> e + 18" and up: "e + 6 \<le> 16 * ?N"
    by blast
  have m: "findPattern ?slot PATTERN_NORMAL = Some 0"
    by (rule findPattern_at_0) (simp add: PATTERN_NORMAL_def)
  have d: "drop (0 + 8 + 8) ?slot = ?B"
    using skip by (simp add: PATTERN_NORMAL_def)
  have g: "getInventory p ?slot = (Some (take (e + 6) ?B), p\<lparr>isDlcFile := False\<rparr>)"
    by (subst getInventory_cases) (simp only: m option.case d e)
  have n: "(length (take (e + 6) ?B) + 15) div 16 = ?N"
  proof -
    have "length ?B = 16 * ?N + 50"
      using w by (simp add: length_concat_fixed)
    with up have "e + 6 \<le> length ?B"
      by arith
    then have "length (take (e + 6) ?B) = e + 6"
      by (rule length_take_le)
    with low up show ?thesis
      by arith
  qed
  have ids: "map (\<lambda>j. convertIdToHex (slice_js (take (e + 6) ?B) (j * 16) (j * 16 + 16))) [0..<?N] =
             map identifierOf records"
  proof (rule nth_equalityI)
    show "length (map (\<lambda>j. convertIdToHex (slice_js (take (e + 6) ?B) (j * 16) (j * 16 + 16))) [0..<?N]) =
          length (map identifierOf records)"
      by simp
  next
    fix j
    assume "j < length (map (\<lambda>j. convertIdToHex (slice_js (take (e + 6) ?B) (j * 16) (j * 16 + 16))) [0..<?N])"
    then have j: "j < ?N"
      by simp
    have "convertIdToHex (slice_js (take (e + 6) ?B) (j * 16) (j * 16 + 16)) =
          identifierOf (slice_js (take (e + 6) ?B) (j * 16) (j * 16 + 16))"
      using length_chunk [OF w j low] by (rule convertIdToHex_identifierOf)
    also have "\<dots> = identifierOf (records ! j)"
      using take4_chunk [OF w j low] by (rule identifierOf_take4)
    finally show "map (\<lambda>j. convertIdToHex (slice_js (take (e + 6) ?B) (j * 16) (j * 16 + 16))) [0..<?N] ! j =
          map identifierOf records ! j"
      using j by simp
  qed
  have "decodeChunks (take (e + 6) ?B) False =
          Some (map (\<lambda>j. convertIdToHex (slice_js (take (e + 6) ?B) (j * 16) (j * 16 + 16)))
                  [0..<(length (take (e + 6) ?B) + 15) div 16])"
    by (rule decodeChunks_standard)
  then have dc: "decodeChunks (take (e + 6) ?B) False = Some (map identifierOf records)"
    by (simp only: n ids)
  have sel: "isDlcFile (p\<lparr>isDlcFile := False\<rparr>) = False"
    by simp
  show ?thesis
    unfolding parseSlot_def by (simp only: g prod.case option.case sel dc) simp
qed

theorem standard_records_decode_witness:
  "parseSlot \<lparr>isDlcFile = True, fileData = None\<rparr> (Some ''Tarnished'')
     (PATTERN_NORMAL @ replicate 8 0 @ concat [[0xEF, 0xBE, 0xAD, 0xDE] @ replicate 12 0] @
      replicate 50 0) =
   Some (Success [''DEADBEEF''] False (Some ''Tarnished'') 1,
         \<lparr>isDlcFile = False, fileData = None\<rparr>) \<and>
   parseSlot \<lparr>isDlcFile = True, fileData = None\<rparr> (Some ''Tarnished'')
     (PATTERN_NORMAL @ replicate 8 7 @
      concat [[1, 2, 3, 4] @ replicate 12 0, replicate 16 0,
              [0xEF, 0xBE, 0xAD, 0xDE] @ replicate 12 0] @
      replicate 50 0) =
   Some (Success [''04030201'', ''00000000'', ''DEADBEEF''] False (Some ''Tarnished'') 3,
         \<lparr>isDlcFile = False, fileData = None\<rparr>)"
proof -
  let ?p = "\<lparr>isDlcFile = True, fileData = None\<rparr>"
  let ?r = "[0xEF, 0xBE, 0xAD, 0xDE] @ replicate 12 (0 :: byte)"
  let ?a = "[1, 2, 3, 4] @ replicate 12 (0 :: byte)"
  let ?z = "replicate 16 (0 :: byte)"
  have w1: "\<forall>r \<in> set [?r]. length r = 16"
    by simp
  have ne1: "[?r] \<noteq> []"
    by simp
  have tail1: "drop 10 (last [?r]) = replicate 6 0"
    by code_simp
  have early1: "\<forall>j. j + 18 < 16 * length [?r] \<longrightarrow>
      \<not> occursAt (concat [?r] @ replicate 50 0) (replicate 50 0) j"
    by simp
  have skip1: "length (replicate 8 (0 :: byte)) = 8"
    by simp
  have i1: "map identifierOf [?r] = [''DEADBEEF'']"
    by (simp add: identifierOf_def hexByte_def upperHexDigit_def)
  from standard_records_decode [OF w1 ne1 tail1 early1 skip1, of ?p "Some ''Tarnished''"]
  have one: "parseSlot ?p (Some ''Tarnished'')
     (PATTERN_NORMAL @ replicate 8 0 @ concat [?r] @ replicate 50 0) =
     Some (Success [''DEADBEEF''] False (Some ''Tarnished'') 1,
           \<lparr>isDlcFile = False, fileData = None\<rparr>)"
    by (simp only: i1) simp
  have w3: "\<forall>r \<in> set [?a, ?z, ?r]. length r = 16"
    by simp
  have ne3: "[?a, ?z, ?r] \<noteq> []"
    by simp
  have tail3: "drop 10 (last [?a, ?z, ?r]) = replicate 6 0"
    by code_simp
  have b32: "(concat [?a, ?z, ?r] @ replicate 50 0) ! 32 = 0xEF"
    by code_simp
  have early3: "\<forall>j. j + 18 < 16 * length [?a, ?z, ?r] \<longrightarrow>
      \<not> occursAt (concat [?a, ?z, ?r] @ replicate 50 0) (replicate 50 0) j"
  proof (intro allI impI notI)
    fix j
    assume j: "j + 18 < 16 * length [?a, ?z, ?r]"
      and occ: "occursAt (concat [?a, ?z, ?r] @ replicate 50 0) (replicate 50 0) j"
    from j have i: "32 - j < 50" and i': "j + (32 - j) = 32"
      by simp_all
    from occursAt_zeros_nth [OF occ i]
    have "(concat [?a, ?z, ?r] @ replicate 50 0) ! 32 = 0"
      by (simp only: i')
    with b32 show False
      by simp
  qed
  have skip3: "length (replicate 8 (7 :: byte)) = 8"
    by simp
  have z16: "take 4 (replicate 16 (0 :: byte)) = [0, 0, 0, 0]"
    by code_simp
  have iz: "identifierOf ?z = ''00000000''"
    unfolding identifierOf_def z16 by (simp add: hexByte_def upperHexDigit_def)
  have ia: "identifierOf ?a = ''04030201''" and ir: "identifierOf ?r = ''DEADBEEF''"
    by (simp_all add: identifierOf_def hexByte_def upperHexDigit_def)
  have i3: "map identifierOf [?a, ?z, ?r] = [''04030201'', ''00000000'', ''DEADBEEF'']"
    by (simp only: list.map ia iz ir)
  from standard_records_decode [OF w3 ne3 tail3 early3 skip3, of ?p "Some ''Tarnished''"]
  have three: "parseSlot ?p (Some ''Tarnished'')
     (PATTERN_NORMAL @ replicate 8 7 @ concat [?a, ?z, ?r] @ replicate 50 0) =
     Some (Success [''04030201'', ''00000000'', ''DEADBEEF''] False (Some ''Tarnished'') 3,
           \<lparr>isDlcFile = False, fileData = None\<rparr>)"
    by (simp only: i3) simp
  from one three show ?thesis
    by (rule conjI)
qed

text \<open>
  C3 as stated fails for records that the data model allows. A record whose last 12
  bytes are not zero gives one identifier too many: the range ends 6 bytes after the
  start of the zero run, here 6 bytes into the terminator. Two records of 16 zero bytes
  give one identifier, not two: the zero run starts with the first record.
\<close>

theorem standard_records_decode_counterexample:
  "parseSlot \<lparr>isDlcFile = False, fileData = None\<rparr> (Some ''Tarnished'')
     (PATTERN_NORMAL @ replicate 8 0 @ concat [[0xEF, 0xBE, 0xAD, 0xDE] @ replicate 12 1] @
      replicate 50 0) =
   Some (Success [''DEADBEEF'', ''00000000''] False (Some ''Tarnished'') 2,
         \<lparr>isDlcFile = False, fileData = None\<rparr>) \<and>
   parseSlot \<lparr>isDlcFile = False, fileData = None\<rparr> (Some ''Tarnished'')
     (PATTERN_NORMAL @ replicate 8 0 @ concat [replicate 16 0, replicate 16 0] @
      replicate 50 0) =
   Some (Success [''00000000''] False (Some ''Tarnished'') 1,
         \<lparr>isDlcFile = False, fileData = None\<rparr>)"
  by code_simp

subsection \<open>Files shorter than the slot table\<close>

lemma parseInventory_short_file:
  assumes v: "validateFile file" and l: "length file \<le> 0x1901d0e"
    and i: "0 \<le> slotIndex" "slotIndex \<le> 9"
  shows "parseInventory decode p file slotIndex =
           parseSlot (p\<lparr>fileData := Some file\<rparr>) (Some (decode []))
             (take 0x280000 (drop (slotStart (nat slotIndex)) file))"
proof -
  have n: "getCharacterNames decode file = Inr (replicate 10 (decode []))"
    using l by (rule getCharacterNames_short)
  have a: "at_index (replicate 10 (decode [])) slotIndex = Some (decode [])"
    using i by (simp add: at_index_def)
  have s: "at_index (getSlots file) slotIndex =
             Some (take 0x280000 (drop (slotStart (nat slotIndex)) file))"
    using i by (simp add: at_index_getSlots)
  show ?thesis
    unfolding parseInventory_def Let_def
    by (simp only: v n a s not_True_eq_False if_False sum.case option.case)
qed

text \<open>
  C4, as amended. For a file shorter than the end of the last slot window (offset
  \<open>0x19003a0\<close>), slot extraction raises nothing: \<^verbatim>\<open>getSlots\<close> returns ten ranges,
  each the part of its window that lies inside the file, so the last one is shorter than
  \<open>0x280000\<close> bytes and may be empty. With the \<open>BND4\<close> signature and a slot index from
  0 to 9, \<^verbatim>\<open>parseInventory\<close> decodes every name from no bytes and goes on with the
  truncated range of the slot as with a full one.
\<close>

theorem truncated_file_not_rejected:
  assumes "length file < 0x019003a0"
  shows "length (getSlots file) = 10 \<and>
         (\<forall>i<10. getSlots file ! i = take 0x280000 (drop (slotStart i) file)) \<and>
         length (getSlots file ! 9) < 0x280000 \<and>
         (validateFile file \<and> 0 \<le> slotIndex \<and> slotIndex \<le> 9 \<longrightarrow>
            parseInventory decode p file slotIndex =
              parseSlot (p\<lparr>fileData := Some file\<rparr>) (Some (decode []))
                (take 0x280000 (drop (slotStart (nat slotIndex)) file)))"
proof (intro conjI allI impI)
  show "length (getSlots file) = 10"
    by (rule length_getSlots)
next
  fix i :: nat
  assume "i < 10"
  then show "getSlots file ! i = take 0x280000 (drop (slotStart i) file)"
    by (rule getSlots_nth)
next
  have "getSlots file ! 9 = take 0x280000 (drop (slotStart 9) file)"
    by (rule getSlots_nth) simp
  with assms show "length (getSlots file ! 9) < 0x280000"
    by (simp add: slotStart_def)
next
  assume a: "validateFile file \<and> 0 \<le> slotIndex \<and> slotIndex \<le> 9"
  from assms have "length file \<le> 0x1901d0e"
    by simp
  with a show "parseInventory decode p file slotIndex =
              parseSlot (p\<lparr>fileData := Some file\<rparr>) (Some (decode []))
                (take 0x280000 (drop (slotStart (nat slotIndex)) file))"
    by (intro parseInventory_short_file) simp_all
qed

lemma getInventory_example:
  "getInventory p (PATTERN_NORMAL @ replicate 8 0 @ [0xEF, 0xBE, 0xAD, 0xDE] @ replicate 62 0) =
     (Some [0xEF, 0xBE, 0xAD, 0xDE, 0, 0, 0, 0, 0, 0], p\<lparr>isDlcFile := False\<rparr>)"
proof -
  let ?s = "PATTERN_NORMAL @ replicate 8 0 @ [0xEF, 0xBE, 0xAD, 0xDE] @ replicate 62 (0 :: byte)"
  have m: "findPattern ?s PATTERN_NORMAL = Some 0"
    by (rule findPattern_at_0) (simp add: PATTERN_NORMAL_def)
  have e: "findPattern (drop (0 + 8 + 8) ?s) (replicate 50 0) = Some 4"
    by code_simp
  have t: "take (4 + 6) (drop (0 + 8 + 8) ?s) = [0xEF, 0xBE, 0xAD, 0xDE, 0, 0, 0, 0, 0, 0]"
    by code_simp
  show ?thesis
    by (subst getInventory_cases) (simp only: m e t option.case)
qed

lemma decodeChunks_example:
  "decodeChunks [0xEF, 0xBE, 0xAD, 0xDE, 0, 0, 0, 0, 0, 0] False = Some [''DEADBEEF'']"
  by (simp add: decodeChunks_standard slice_js_def convertIdToHex_four hexByte_def upperHexDigit_def)

lemma parseSlot_example:
  "parseSlot p characterName
     (PATTERN_NORMAL @ replicate 8 0 @ [0xEF, 0xBE, 0xAD, 0xDE] @ replicate 62 0) =
   Some (Success [''DEADBEEF''] False characterName 1, p\<lparr>isDlcFile := False\<rparr>)"
  unfolding parseSlot_def
  by (simp only: getInventory_example prod.case option.case) (simp add: decodeChunks_example)

lemma truncatedFile_facts:
  "length truncatedFile = 866"
  "validateFile truncatedFile"
  "take 0x280000 (drop (slotStart 0) truncatedFile) =
     PATTERN_NORMAL @ replicate 8 0 @ [0xEF, 0xBE, 0xAD, 0xDE] @ replicate 62 0"
  by (simp_all add: truncatedFile_def validateFile_iff FILE_SIGNATURE_def PATTERN_NORMAL_def
      slotStart_def)

theorem truncated_file_not_rejected_witness:
  "length truncatedFile < 0x019003a0 \<and>
   parseInventory (\<lambda>d. d) \<lparr>isDlcFile = True, fileData = None\<rparr> truncatedFile 0 =
     Some (Success [''DEADBEEF''] False (Some []) 1,
           \<lparr>isDlcFile = False, fileData = Some truncatedFile\<rparr>)"
proof -
  have l: "length truncatedFile < 0x019003a0"
    by (simp add: truncatedFile_facts)
  have h: "validateFile truncatedFile \<and> (0 :: int) \<le> 0 \<and> (0 :: int) \<le> 9"
    by (simp add: truncatedFile_facts)
  from truncated_file_not_rejected [OF l, of 0 "\<lambda>d. d" "\<lparr>isDlcFile = True, fileData = None\<rparr>"] h
  have "parseInventory (\<lambda>d. d) \<lparr>isDlcFile = True, fileData = None\<rparr> truncatedFile 0 =
          parseSlot (\<lparr>isDlcFile = True, fileData = None\<rparr>\<lparr>fileData := Some truncatedFile\<rparr>)
            (Some []) (take 0x280000 (drop (slotStart (nat 0)) truncatedFile))"
    by blast
  then have "parseInventory (\<lambda>d. d) \<lparr>isDlcFile = True, fileData = None\<rparr> truncatedFile 0 =
     Some (Success [''DEADBEEF''] False (Some []) 1,
           \<lparr>isDlcFile = False, fileData = Some truncatedFile\<rparr>)"
    by (simp only: nat_0 truncatedFile_facts parseSlot_example) simp
  with l show ?thesis
    by (rule conjI)
qed

text \<open>
  C4 as stated fails: the file of 866 bytes is decoded with success from its truncated
  first slot, and the file of the four signature bytes gives for slot 9 the failure of
  a slot without inventory, not an error about the file.
\<close>

theorem truncated_file_fatal_counterexample:
  "length truncatedFile = 866 \<and>
   parseInventory (\<lambda>d. d) \<lparr>isDlcFile = False, fileData = None\<rparr> truncatedFile 0 =
     Some (Success [''DEADBEEF''] False (Some []) 1,
           \<lparr>isDlcFile = False, fileData = Some truncatedFile\<rparr>) \<and>
   parseInventory (\<lambda>d. d) \<lparr>isDlcFile = False, fileData = None\<rparr> [0x42, 0x4E, 0x44, 0x34] 9 =
     Some (Failure (Message ''Could not find inventory data in slot''),
           \<lparr>isDlcFile = False, fileData = Some [0x42, 0x4E, 0x44, 0x34]\<rparr>)"
proof -
  have "parseInventory (\<lambda>d. d) \<lparr>isDlcFile = False, fileData = None\<rparr> truncatedFile 0 =
          parseSlot (\<lparr>isDlcFile = False, fileData = None\<rparr>\<lparr>fileData := Some truncatedFile\<rparr>)
            (Some []) (take 0x280000 (drop (slotStart (nat 0)) truncatedFile))"
    by (rule parseInventory_short_file) (simp_all add: truncatedFile_facts)
  then have a: "parseInventory (\<lambda>d. d) \<lparr>isDlcFile = False, fileData = None\<rparr> truncatedFile 0 =
     Some (Success [''DEADBEEF''] False (Some []) 1,
           \<lparr>isDlcFile = False, fileData = Some truncatedFile\<rparr>)"
    by (simp only: nat_0 truncatedFile_facts parseSlot_example) simp
  have "parseInventory (\<lambda>d. d) \<lparr>isDlcFile = False, fileData = None\<rparr> [0x42, 0x4E, 0x44, 0x34] 9 =
          parseSlot (\<lparr>isDlcFile = False, fileData = None\<rparr>\<lparr>fileData := Some [0x42, 0x4E, 0x44, 0x34]\<rparr>)
            (Some []) (take 0x280000 (drop (slotStart (nat 9)) [0x42, 0x4E, 0x44, 0x34]))"
    by (rule parseInventory_short_file) (simp_all add: validateFile_iff)
  moreover have "take 0x280000 (drop (slotStart (nat 9)) [0x42, 0x4E, 0x44, 0x34 :: byte]) = []"
    by (simp add: slotStart_def)
  moreover have "findPattern [] PATTERN_NORMAL = None" "findPattern [] PATTERN_DLC = None"
    by (simp_all add: findPattern_None occursAt_def PATTERN_NORMAL_def PATTERN_DLC_def)
  then have "getInventory p [] = (None, p)" for p
    by (subst getInventory_cases) (simp only: option.case)
  ultimately have b: "parseInventory (\<lambda>d. d) \<lparr>isDlcFile = False, fileData = None\<rparr> [0x42, 0x4E, 0x44, 0x34] 9 =
     Some (Failure (Message ''Could not find inventory data in slot''),
           \<lparr>isDlcFile = False, fileData = Some [0x42, 0x4E, 0x44, 0x34]\<rparr>)"
    by (simp add: parseSlot_def)
  from a b show ?thesis
    by (simp add: truncatedFile_facts)
qed

section \<open>Properties of the tracker\<close>

subsection \<open>Classification and filtering\<close>

lemma parseInt16_examples:
  "parseInt16 ''400007F0'' = Some 0x400007F0"
  "parseInt16 ''40002400'' = Some 0x40002400"
  "parseInt16 ''40000BC0'' = Some 0x40000BC0"
  "parseInt16 ''40000000'' = Some 0x40000000"
  "parseInt16 ''00F42400'' = Some 0x00F42400"
  "parseInt16 ''10000000'' = Some 0x10000000"
  "parseInt16 ''20000000'' = Some 0x20000000"
  "parseInt16 ''80000000'' = Some 0x80000000"
  "parseInt16 ''90000000'' = Some 0x90000000"
  by (simp_all add: parseInt16_def isWhiteSpace_def hexDigitValue_def Let_def)

text \<open>
  C1. \<^verbatim>\<open>determineCategory\<close> returns a category for every string, "Other" when
  \<^verbatim>\<open>parseInt\<close> finds no number or no range holds it. The lower bounds of the rows
  Bell Bearings, Cookbooks, Crystal Tears and Key Items are classified as Magic: the
  Magic range is tested before these four and contains them.
\<close>

theorem determineCategory_shadowed_rows:
  "determineCategory ''400007F0'' = ''Magic'' \<and>
   determineCategory ''40002400'' = ''Magic'' \<and>
   determineCategory ''40000BC0'' = ''Magic'' \<and>
   determineCategory ''40000000'' = ''Magic''"
  by (simp add: determineCategory_def parseInt16_examples)

text \<open>The lower bounds of the first six rows are classified as their rows say.\<close>

lemma determineCategory_rows_in_order:
  "determineCategory ''00F42400'' = ''Weapons'' \<and>
   determineCategory ''10000000'' = ''Armor'' \<and>
   determineCategory ''20000000'' = ''Talismans'' \<and>
   determineCategory ''40000000'' = ''Magic'' \<and>
   determineCategory ''80000000'' = ''Ashes of War'' \<and>
   determineCategory ''90000000'' = ''Spirit Ashes''"
  by (simp add: determineCategory_def parseInt16_examples)

text \<open>The last four tests of \<^verbatim>\<open>determineCategory\<close> are never reached with success.\<close>

lemma if_chain_shadowed:
  assumes "\<not> c4 \<Longrightarrow> \<not> c7" "\<not> c4 \<Longrightarrow> \<not> c8" "\<not> c4 \<Longrightarrow> \<not> c9" "\<not> c4 \<Longrightarrow> \<not> c10"
  shows "(if c1 then a1 else if c2 then a2 else if c3 then a3 else if c4 then a4
          else if c5 then a5 else if c6 then a6 else if c7 then a7 else if c8 then a8
          else if c9 then a9 else if c10 then a10 else b) =
         (if c1 then a1 else if c2 then a2 else if c3 then a3 else if c4 then a4
          else if c5 then a5 else if c6 then a6 else b)"
  using assms by (cases c4) simp_all

lemma determineCategory_reachable:
  "determineCategory itemId =
     (case parseInt16 itemId of
        None \<Rightarrow> ''Other''
      | Some idv \<Rightarrow>
          if idv \<ge> 0x00F42400 \<and> idv \<le> 0x017D7840 then ''Weapons''
          else if idv \<ge> 0x10000000 \<and> idv \<le> 0x14000000 then ''Armor''
          else if idv \<ge> 0x20000000 \<and> idv \<le> 0x24000000 then ''Talismans''
          else if idv \<ge> 0x40000000 \<and> idv \<le> 0x48000000 then ''Magic''
          else if idv \<ge> 0x80000000 \<and> idv \<le> 0x88000000 then ''Ashes of War''
          else if idv \<ge> 0x90000000 \<and> idv \<le> 0x98000000 then ''Spirit Ashes''
          else ''Other'')"
proof (cases "parseInt16 itemId")
  case None
  then show ?thesis
    by (simp only: determineCategory_def option.case)
next
  case (Some n)
  show ?thesis
    unfolding determineCategory_def Some option.case
    by (rule if_chain_shadowed) arith+
qed

lemma interleaveBy_filter:
  "interleaveBy (map P xs) (filter P xs) (filter (\<lambda>x. \<not> P x) xs) = xs"
  by (induction xs) simp_all

lemma filterItems_status_only:
  "filterItems items \<lparr>status = Some ''owned'', by_region = None, by_category = None, search = None\<rparr> =
     filter owned items"
  "filterItems items \<lparr>status = Some ''missing'', by_region = None, by_category = None, search = None\<rparr> =
     filter (\<lambda>item. \<not> owned item) items"
  by (simp_all add: filterItems_def truthy_def)

text \<open>
  C8. With only the status criterion given, the results for "owned" and for "missing"
  split the list: the first holds owned items only, the second none, together they hold
  every item as often as the list does, each is a subsequence of the list, and taking
  the next element from the first result at the positions of owned items and from the
  second elsewhere gives the list back.
\<close>

theorem filter_status_partition:
  fixes items :: "enrichedItem list"
  defines "ownedItems \<equiv> filterItems items
      \<lparr>status = Some ''owned'', by_region = None, by_category = None, search = None\<rparr>"
    and "missingItems \<equiv> filterItems items
      \<lparr>status = Some ''missing'', by_region = None, by_category = None, search = None\<rparr>"
  shows "(\<forall>item \<in> set ownedItems. owned item) \<and>
         (\<forall>item \<in> set missingItems. \<not> owned item) \<and>
         mset ownedItems + mset missingItems = mset items \<and>
         subseq ownedItems items \<and> subseq missingItems items \<and>
         interleaveBy (map owned items) ownedItems missingItems = items"
  unfolding ownedItems_def missingItems_def filterItems_status_only
  by (simp add: interleaveBy_filter)

lemma enrich_sel:
  "region (enrich inventoryIds r s entry) = r"
  "subregion (enrich inventoryIds r s entry) = s"
  "item_id (enrich inventoryIds r s entry) = fst entry"
  "owned (enrich inventoryIds r s entry) = (fst entry \<in> set inventoryIds)"
  by (cases entry; simp add: enrich_def)+


lemma crossReference_example:
  "map (\<lambda>item. (item_id item, owned item)) (crossReference [''DEADBEEF''] exampleCatalog) =
     [(''DEADBEEF'', True), (''00F42400'', False)]"
  "map (\<lambda>item. (item_id item, owned item)) (crossReference [] exampleCatalog) =
     [(''DEADBEEF'', False), (''00F42400'', False)]"
  "catalogTriples exampleCatalog =
     [(''RegionA'', ''SubA'', ''DEADBEEF''), (''RegionA'', ''SubA'', ''00F42400'')]"
  by (simp_all add: crossReference_def exampleCatalog_def enrich_sel catalogTriples_def)

lemma length_filter_map_snd:
  "length (filter owned items) = length (filter snd (map (\<lambda>item. (item_id item, owned item)) items))"
  by (induction items) simp_all


theorem filter_status_partition_witness:
  "interleaveBy [True, False]
     (filterItems (crossReference [''DEADBEEF''] exampleCatalog)
        \<lparr>status = Some ''owned'', by_region = None, by_category = None, search = None\<rparr>)
     (filterItems (crossReference [''DEADBEEF''] exampleCatalog)
        \<lparr>status = Some ''missing'', by_region = None, by_category = None, search = None\<rparr>) =
   crossReference [''DEADBEEF''] exampleCatalog"
proof -
  let ?items = "crossReference [''DEADBEEF''] exampleCatalog"
  have "map owned ?items = map snd (map (\<lambda>item. (item_id item, owned item)) ?items)"
    by (simp add: comp_def)
  then have m: "map owned ?items = [True, False]"
    by (simp only: crossReference_example(1)) simp
  from filter_status_partition [of ?items] show ?thesis
    by (simp only: m)
qed

subsection \<open>Percentages\<close>

lemma floorLog2_le:
  assumes "0 < x"
  shows "2 powi (floorLog2 x) \<le> x"
proof -
  obtain p q where pq: "quotient_of x = (p, q)"
    by (cases "quotient_of x")
  then have q: "0 < q" and x: "x = of_int p / of_int q"
    by (simp_all add: quotient_of_denom_pos quotient_of_div)
  from assms x q have p: "0 < p"
    by (simp add: zero_less_divide_iff)
  define bp where "bp = floorlog 2 (nat p)"
  define bq where "bq = floorlog 2 (nat q)"
  define k where "k = int bp - int bq"
  have e: "floorLog2 x = (if 2 powi k \<le> x then k else k - 1)"
    by (simp add: floorLog2_def pq k_def bp_def bq_def Let_def)
  show ?thesis
  proof (cases "2 powi k \<le> x")
    case True
    with e show ?thesis by simp
  next
    case False
    have bp1: "2 ^ (bp - 1) \<le> nat p" and bq1: "nat q < 2 ^ bq"
      using floorlog_bounds [of "nat p" 2] floorlog_bounds [of "nat q" 2] p q
      by (simp_all add: bp_def bq_def)
    have "bp \<noteq> 0"
      using p by (simp add: bp_def floorlog_eq_zero_iff)
    then have bp0: "0 < bp"
      by simp
    from bp1 have "(2 :: rat) ^ (bp - 1) \<le> of_nat (nat p)"
      by (metis of_nat_le_iff of_nat_numeral of_nat_power)
    with p have a: "(2 :: rat) ^ (bp - 1) \<le> of_int p"
      by simp
    from bq1 have "of_nat (nat q) < (2 :: rat) ^ bq"
      by (metis of_nat_less_iff of_nat_numeral of_nat_power)
    with q have b: "of_int q < (2 :: rat) ^ bq"
      by simp
    have "(2 :: rat) powi (k - 1) = 2 ^ (bp - 1) / 2 ^ bq"
    proof -
      have "k - 1 = int (bp - 1) - int bq"
        using bp0 by (simp add: k_def)
      then show ?thesis
        by (simp add: power_int_diff)
    qed
    also have "\<dots> \<le> of_int p / 2 ^ bq"
      using a by (simp add: divide_right_mono)
    also have "\<dots> \<le> of_int p / of_int q"
      using b p q by (simp add: frac_le)
    finally show ?thesis
      using False e x by simp
  qed
qed

lemma roundTiesToEven_error: "\<bar>of_int (roundTiesToEven q) - q\<bar> \<le> 1 / 2"
proof -
  have "of_int \<lfloor>q\<rfloor> \<le> q" "q < of_int \<lfloor>q\<rfloor> + 1"
    by linarith+
  then show ?thesis
    unfolding roundTiesToEven_def Let_def
    by (auto simp: abs_le_iff)
qed

lemma toDouble_error:
  assumes "0 < x"
  shows "\<bar>toDouble x - x\<bar> \<le> x / 2 ^ 53"
proof -
  define e where "e = floorLog2 x"
  define ulp :: rat where "ulp = 2 powi (e - 52)"
  have u: "0 < ulp"
    by (simp add: ulp_def)
  have t: "toDouble x = of_int (roundTiesToEven (x / ulp)) * ulp"
    using assms by (simp add: toDouble_def Let_def e_def ulp_def)
  have "toDouble x - x = (of_int (roundTiesToEven (x / ulp)) - x / ulp) * ulp"
    using u by (simp add: t algebra_simps)
  then have "\<bar>toDouble x - x\<bar> = \<bar>of_int (roundTiesToEven (x / ulp)) - x / ulp\<bar> * ulp"
    using u by (simp add: abs_mult)
  also have "\<dots> \<le> (1 / 2) * ulp"
    using roundTiesToEven_error [of "x / ulp"] u by (intro mult_right_mono) simp_all
  also have "\<dots> = 2 powi e / 2 ^ 53"
  proof -
    have "ulp = 2 powi e / 2 ^ 52"
      by (simp add: ulp_def power_int_diff)
    then show ?thesis by simp
  qed
  also have "\<dots> \<le> x / 2 ^ 53"
    using floorLog2_le [OF assms] by (simp add: e_def divide_right_mono)
  finally show ?thesis .
qed


lemma floor_half: "\<lfloor>1 / 2 :: rat\<rfloor> = 0"
  by (simp add: floor_eq_iff)

lemma percentageOf_zero: "percentageOf 0 totalN = 0"
  by (simp add: percentageOf_def toDouble_def Math_round_def floor_half)

lemma percentageOf_nearest:
  assumes le: "ownedN \<le> totalN" and pos: "0 < totalN" and small: "totalN < 2 ^ 32"
  shows "\<bar>of_int (percentageOf ownedN totalN) - 100 * of_nat ownedN / of_nat totalN\<bar> \<le> (1 / 2 :: rat)"
proof (cases "ownedN = 0")
  case True
  then show ?thesis
    by (simp add: percentageOf_zero)
next
  case False
  define eps :: rat where "eps = 1 / 2 ^ 53"
  have eps0: "0 < eps" and eps1: "eps < 1" and eps32: "2 ^ 32 * eps \<le> 1 / 600"
    by (simp_all add: eps_def)
  have err: "\<bar>toDouble v - v\<bar> \<le> v * eps" if "0 < v" for v
    using toDouble_error [OF that] by (simp add: eps_def)
  define t :: rat where "t = of_nat totalN"
  define x :: rat where "x = of_nat ownedN / t"
  define y where "y = toDouble x"
  define z where "z = toDouble (y * 100)"
  define n where "n = Math_round z"
  have t0: "0 < t"
    using pos by (simp add: t_def)
  have "(of_nat totalN :: rat) < of_nat (2 ^ 32)"
    using small by (simp only: of_nat_less_iff)
  then have t32: "t < 2 ^ 32"
    by (simp add: t_def)
  have x0: "0 < x" and x1: "x \<le> 1"
    using False le t0 by (simp_all add: x_def t_def)
  have ey: "\<bar>y - x\<bar> \<le> x * eps"
    unfolding y_def using x0 by (rule err)
  have xe: "x * eps \<le> eps" "x * eps < x"
    using x0 x1 eps0 eps1 by (simp_all add: mult_left_le_one_le)
  from ey xe x0 x1 eps1 have y0: "0 < y" and y2: "y \<le> 2" and ey': "\<bar>y - x\<bar> \<le> eps"
    by linarith+
  have "\<bar>z - y * 100\<bar> \<le> y * 100 * eps"
    unfolding z_def using y0 by (intro err) simp
  moreover have "y * 100 * eps \<le> 200 * eps"
    using y2 eps0 by (intro mult_right_mono) simp_all
  ultimately have ez: "\<bar>z - y * 100\<bar> \<le> 200 * eps"
    by linarith
  have d: "\<bar>z - 100 * x\<bar> \<le> 300 * eps"
    using ez ey' by linarith
  have n1: "of_int n \<le> z + 1 / 2" and n2: "z + 1 / 2 < of_int n + 1"
    unfolding n_def Math_round_def by linarith+
  define D :: int where "D = n * int totalN - 100 * int ownedN"
  have Dx: "of_int D = (of_int n - 100 * x) * t"
    using t0 by (simp add: D_def x_def t_def algebra_simps)
  have "t * eps < 2 ^ 32 * eps"
    using t32 eps0 by (rule mult_strict_right_mono)
  with eps32 have tt: "600 * (t * eps) < 1"
    by linarith
  have up: "of_int (2 * D) < t + 1"
  proof -
    have "of_int n - 100 * x \<le> 1 / 2 + 300 * eps"
      using n1 d by linarith
    then have "(of_int n - 100 * x) * t \<le> (1 / 2 + 300 * eps) * t"
      using t0 by (intro mult_right_mono) simp_all
    then have "of_int D \<le> t / 2 + 300 * (t * eps)"
      by (simp only: Dx) (simp add: algebra_simps)
    with tt show ?thesis
      by simp
  qed
  have lo: "- t - 1 < of_int (2 * D)"
  proof -
    have "- (1 / 2) - 300 * eps \<le> of_int n - 100 * x"
      using n2 d by linarith
    then have "(- (1 / 2) - 300 * eps) * t \<le> (of_int n - 100 * x) * t"
      using t0 by (intro mult_right_mono) simp_all
    then have "- (t / 2) - 300 * (t * eps) \<le> of_int D"
      by (simp only: Dx) (simp add: algebra_simps)
    with tt show ?thesis
      by simp
  qed
  from up have "of_int (2 * D) < (of_int (int totalN + 1) :: rat)"
    by (simp add: t_def)
  then have "2 * D < int totalN + 1"
    by (simp only: of_int_less_iff)
  then have up': "2 * D \<le> int totalN"
    by simp
  from lo have "(of_int (- int totalN - 1) :: rat) < of_int (2 * D)"
    by (simp add: t_def)
  then have "- int totalN - 1 < 2 * D"
    by (simp only: of_int_less_iff)
  then have lo': "- int totalN \<le> 2 * D"
    by simp
  from up' lo' have "\<bar>2 * D\<bar> \<le> int totalN"
    by simp
  then have "(of_int \<bar>2 * D\<bar> :: rat) \<le> of_int (int totalN)"
    by (simp only: of_int_le_iff)
  then have "2 * \<bar>of_int D :: rat\<bar> \<le> t"
    by (simp add: t_def abs_mult)
  then have "2 * (\<bar>of_int n - 100 * x\<bar> * t) \<le> 1 * t"
    using t0 by (simp add: Dx abs_mult)
  then have "(2 * \<bar>of_int n - 100 * x\<bar>) * t \<le> 1 * t"
    by (simp only: mult.assoc)
  then have "2 * \<bar>of_int n - 100 * x\<bar> \<le> 1"
    using t0 by (simp only: mult_le_cancel_right_pos)
  then have "\<bar>of_int n - 100 * x\<bar> \<le> 1 / 2"
    by simp
  moreover have "percentageOf ownedN totalN = n"
    using pos by (simp add: percentageOf_def n_def z_def y_def x_def t_def)
  moreover have "100 * of_nat ownedN / of_nat totalN = 100 * x"
    by (simp add: x_def t_def)
  ultimately show ?thesis
    by simp
qed

lemma floorLog2_less:
  assumes "0 < x"
  shows "x < 2 powi (floorLog2 x + 1)"
proof -
  obtain p q where pq: "quotient_of x = (p, q)"
    by (cases "quotient_of x")
  then have q: "0 < q" and x: "x = of_int p / of_int q"
    by (simp_all add: quotient_of_denom_pos quotient_of_div)
  from assms x q have p: "0 < p"
    by (simp add: zero_less_divide_iff)
  define bp where "bp = floorlog 2 (nat p)"
  define bq where "bq = floorlog 2 (nat q)"
  define k where "k = int bp - int bq"
  have e: "floorLog2 x = (if 2 powi k \<le> x then k else k - 1)"
    by (simp add: floorLog2_def pq k_def bp_def bq_def Let_def)
  show ?thesis
  proof (cases "2 powi k \<le> x")
    case False
    with e show ?thesis by simp
  next
    case True
    have bp1: "nat p < 2 ^ bp" and bq1: "2 ^ (bq - 1) \<le> nat q"
      using floorlog_bounds [of "nat p" 2] floorlog_bounds [of "nat q" 2] p q
      by (simp_all add: bp_def bq_def)
    have "bq \<noteq> 0"
      using q by (simp add: bq_def floorlog_eq_zero_iff)
    then have bq0: "0 < bq"
      by simp
    from bp1 have "of_nat (nat p) < (2 :: rat) ^ bp"
      by (metis of_nat_less_iff of_nat_numeral of_nat_power)
    with p have a: "of_int p < (2 :: rat) ^ bp"
      by simp
    from bq1 have "(2 :: rat) ^ (bq - 1) \<le> of_nat (nat q)"
      by (metis of_nat_le_iff of_nat_numeral of_nat_power)
    with q have b: "(2 :: rat) ^ (bq - 1) \<le> of_int q"
      by simp
    have "of_int p / of_int q < (2 :: rat) ^ bp / of_int q"
      using a q by (simp add: divide_strict_right_mono)
    also have "\<dots> \<le> 2 ^ bp / 2 ^ (bq - 1)"
      using b by (simp add: frac_le)
    also have "\<dots> = (2 :: rat) powi (k + 1)"
    proof -
      have "k + 1 = int bp - int (bq - 1)"
        using bq0 by (simp add: k_def)
      then show ?thesis
        by (simp add: power_int_diff)
    qed
    finally show ?thesis
      using True e x by simp
  qed
qed

lemma floorLog2_unique:
  assumes "2 powi e \<le> x" and "x < 2 powi (e + 1)"
  shows "floorLog2 x = e"
proof -
  have x0: "0 < x"
    using assms(1) by (rule less_le_trans [rotated]) simp
  have "(2 :: rat) powi e < 2 powi (floorLog2 x + 1)"
    using assms(1) floorLog2_less [OF x0] by (rule le_less_trans)
  then have a: "e < floorLog2 x + 1"
    using power_int_increasing [of "floorLog2 x + 1" e "2 :: rat"] by (cases "e < floorLog2 x + 1") simp_all
  have "(2 :: rat) powi (floorLog2 x) < 2 powi (e + 1)"
    using floorLog2_le [OF x0] assms(2) by (rule le_less_trans)
  then have b: "floorLog2 x < e + 1"
    using power_int_increasing [of "e + 1" "floorLog2 x" "2 :: rat"] by (cases "floorLog2 x < e + 1") simp_all
  from a b show ?thesis
    by simp
qed

lemma floor_numeral_quotient:
  "\<lfloor>numeral a / numeral b :: rat\<rfloor> = numeral a div numeral b"
  using floor_divide_of_int_eq [of "numeral a" "numeral b", where 'a = rat] by simp

text \<open>
  Two ties, as JavaScript computes them: 29 of 200 is 14, since the double product is
  just below 14.5, and 1 of 8 is 13, since 12.5 is exact and \<^verbatim>\<open>Math.round\<close> takes
  the larger neighbour.
\<close>

lemma toDouble_example_1: "toDouble (29 / 200) = 5224175567749775 / 2 ^ 55"
proof -
  have e: "floorLog2 (29 / 200) = - 3"
    by (rule floorLog2_unique) (simp_all add: power_int_minus)
  show ?thesis
    by (simp add: toDouble_def e roundTiesToEven_def Let_def power_int_minus floor_numeral_quotient)
qed

lemma toDouble_example_2:
  "toDouble (130604389193744375 / 9007199254740992) = 8162774324609023 / 562949953421312"
proof -
  have e: "floorLog2 (130604389193744375 / 9007199254740992) = 3"
    by (rule floorLog2_unique) simp_all
  show ?thesis
    by (simp add: toDouble_def roundTiesToEven_def Let_def power_int_minus floor_numeral_quotient e)
qed

lemma percentageOf_tie_down: "percentageOf 29 200 = 14"
proof -
  have "toDouble (toDouble (of_nat 29 / of_nat 200) * 100) = 8162774324609023 / 562949953421312"
    by (simp add: toDouble_example_1 toDouble_example_2)
  moreover have "(8162774324609023 / 562949953421312 + 1 / 2 :: rat) =
      8444249301319679 / 562949953421312"
    by simp
  ultimately show ?thesis
    by (simp only: percentageOf_def Math_round_def floor_numeral_quotient) simp
qed


lemma percentageOf_tie_up: "percentageOf 1 8 = 13"
proof -
  have e1: "floorLog2 (1 / 8) = - 3"
    by (rule floorLog2_unique) (simp_all add: power_int_minus)
  have d1: "toDouble (1 / 8) = 1 / 8"
    by (simp add: toDouble_def e1 roundTiesToEven_def Let_def power_int_minus floor_numeral_quotient)
  have e2: "floorLog2 (25 / 2) = 3"
    by (rule floorLog2_unique) simp_all
  have d2: "toDouble (25 / 2) = 25 / 2"
    by (simp add: toDouble_def e2 roundTiesToEven_def Let_def power_int_minus floor_numeral_quotient)
  have "toDouble (toDouble (of_nat 1 / of_nat 8) * 100) = 25 / 2"
    by (simp add: d1 d2)
  moreover have "(25 / 2 + 1 / 2 :: rat) = 13"
    by simp
  ultimately show ?thesis
    by (simp only: percentageOf_def Math_round_def) simp
qed

text \<open>
  A third tie: 23 of 40 is 57, since the double nearest to 23 / 40 times 100 is the double
  just below 57.5.
\<close>

lemma toDouble_example_3: "toDouble (23 / 40) = 2589569785738035 / 4503599627370496"
proof -
  have e: "floorLog2 (23 / 40) = - 1"
    by (rule floorLog2_unique) (simp_all add: power_int_minus)
  show ?thesis
    by (simp add: toDouble_def e roundTiesToEven_def Let_def power_int_minus floor_numeral_quotient)
qed

lemma toDouble_example_4:
  "toDouble (64739244643450875 / 1125899906842624) = 8092405580431359 / 140737488355328"
proof -
  have e: "floorLog2 (64739244643450875 / 1125899906842624) = 5"
    by (rule floorLog2_unique) simp_all
  show ?thesis
    by (simp add: toDouble_def roundTiesToEven_def Let_def power_int_minus floor_numeral_quotient e)
qed

lemma percentageOf_23_40: "percentageOf 23 40 = 57"
proof -
  have "toDouble (toDouble (of_nat 23 / of_nat 40) * 100) = 8092405580431359 / 140737488355328"
    by (simp add: toDouble_example_3 toDouble_example_4)
  moreover have "(8092405580431359 / 140737488355328 + 1 / 2 :: rat) =
      8162774324609023 / 140737488355328"
    by simp
  ultimately show ?thesis
    by (simp only: percentageOf_def Math_round_def floor_numeral_quotient) simp
qed

text \<open>
  Away from a tie, the integer within 1/2 of the exact value is the exact value rounded.
\<close>

lemma nearest_not_tie:
  fixes v :: rat
  assumes near: "\<bar>of_int p - v\<bar> \<le> 1 / 2" and tie: "frac v \<noteq> 1 / 2"
  shows "p = round v"
proof -
  define q where "q = \<lfloor>v + 1 / 2\<rfloor>"
  have q1: "of_int q \<le> v + 1 / 2" and q2: "v + 1 / 2 < of_int q + 1"
    unfolding q_def by linarith+
  from near have p1: "of_int p \<le> v + 1 / 2" and p2: "v - 1 / 2 \<le> of_int p"
    by linarith+
  from p1 have "p \<le> q"
    unfolding q_def by (simp add: le_floor_iff)
  moreover have "q \<le> p"
  proof (rule ccontr)
    assume "\<not> q \<le> p"
    then have "p + 1 \<le> q"
      by simp
    then have "(of_int (p + 1) :: rat) \<le> of_int q"
      by (simp only: of_int_le_iff)
    then have "(of_int p :: rat) + 1 \<le> of_int q"
      by simp
    with p2 q1 have v: "v = of_int q - 1 / 2"
      by linarith
    have "\<lfloor>v\<rfloor> = q - 1"
      unfolding v by (simp add: floor_eq_iff)
    then have "frac v = 1 / 2"
      by (simp add: frac_def v)
    with tie show False
      by contradiction
  qed
  ultimately show ?thesis
    by (simp add: round_def q_def)
qed

lemma percentageOf_round:
  assumes "ownedN \<le> totalN" and "0 < totalN" and "totalN < 2 ^ 32"
    and "frac (100 * of_nat ownedN / of_nat totalN :: rat) \<noteq> 1 / 2"
  shows "percentageOf ownedN totalN = round (100 * of_nat ownedN / of_nat totalN :: rat)"
  using percentageOf_nearest [OF assms(1-3)] assms(4) by (rule nearest_not_tie)

subsection \<open>Cross-reference and statistics\<close>

lemma crossReference_triples:
  "map (\<lambda>item. (region item, subregion item, item_id item)) (crossReference inventoryIds locationData) =
     catalogTriples locationData"
  unfolding crossReference_def catalogTriples_def split_def
  by (simp add: map_concat comp_def enrich_sel)

lemma crossReference_empty_not_owned:
  "item \<in> set (crossReference [] locationData) \<Longrightarrow> \<not> owned item"
  by (auto simp: crossReference_def enrich_sel)

lemma crossReference_empty_filter:
  "filter owned (crossReference [] locationData) = []"
  by (simp add: filter_empty_conv crossReference_empty_not_owned)

lemma summary_calculateStats:
  "summary (calculateStats items) =
     \<lparr>total_count = length items, owned_count = length (filter owned items),
      missing_count = length items - length (filter owned items),
      percentage = percentageOf (length (filter owned items)) (length items)\<rparr>"
  by (simp add: calculateStats_def Let_def)

text \<open>The breakdowns by category and by region, in closed form.\<close>

lemma countItem_fold:
  "foldl (\<lambda>stats item. countItem stats (f item) (owned item)) Map.empty items key =
     (let xs = filter (\<lambda>item. f item = key) items
      in if key \<in> set inheritedKeys \<or> xs = [] then None
         else Some \<lparr>total_count = length xs,
                    owned_count = length (filter owned xs),
                    missing_count = length (filter (\<lambda>item. \<not> owned item) xs),
                    percentage = 0\<rparr>)"
proof (induction items rule: rev_induct)
  case Nil
  then show ?case by simp
next
  case (snoc x xs)
  show ?case
  proof (cases "f x = key")
    case True
    with snoc show ?thesis
      by (auto simp: countItem_def Let_def filter_empty_conv)
  next
    case False
    with snoc show ?thesis
      by (simp add: countItem_def Let_def)
  qed
qed

lemma withPercentages_fold:
  "withPercentages (foldl (\<lambda>stats item. countItem stats (f item) (owned item)) Map.empty items) =
     tallyBy f items"
  by (rule ext) (simp add: withPercentages_def countItem_fold tallyBy_def Let_def)

lemma calculateCategoryStats_tallyBy:
  "calculateCategoryStats items = tallyBy (\<lambda>item. determineCategory (item_id item)) items"
  unfolding calculateCategoryStats_def by (rule withPercentages_fold)

lemma calculateRegionalStats_tallyBy:
  "calculateRegionalStats items = tallyBy region items"
  unfolding calculateRegionalStats_def by (rule withPercentages_fold)

lemma tallyBy_ran:
  assumes "t \<in> ran (tallyBy f items)"
  shows "\<exists>key. key \<notin> set inheritedKeys \<and> filter (\<lambda>item. f item = key) items \<noteq> [] \<and>
           t = \<lparr>total_count = length (filter (\<lambda>item. f item = key) items),
                 owned_count = length (filter owned (filter (\<lambda>item. f item = key) items)),
                 missing_count = length (filter (\<lambda>item. \<not> owned item) (filter (\<lambda>item. f item = key) items)),
                 percentage = percentageOf (length (filter owned (filter (\<lambda>item. f item = key) items)))
                                (length (filter (\<lambda>item. f item = key) items))\<rparr>"
proof -
  from assms obtain key where k: "tallyBy f items key = Some t"
    by (auto simp: ran_def)
  then show ?thesis
    by (intro exI [of _ key]) (auto simp: tallyBy_def Let_def split: if_splits)
qed

lemma tallyBy_none_owned:
  assumes "filter owned items = []" and "t \<in> ran (tallyBy f items)"
  shows "owned_count t = 0 \<and> percentage t = 0 \<and> 0 < total_count t \<and> missing_count t = total_count t"
proof -
  from tallyBy_ran [OF assms(2)] obtain key where
    ne: "filter (\<lambda>item. f item = key) items \<noteq> []" and
    t: "t = \<lparr>total_count = length (filter (\<lambda>item. f item = key) items),
                 owned_count = length (filter owned (filter (\<lambda>item. f item = key) items)),
                 missing_count = length (filter (\<lambda>item. \<not> owned item) (filter (\<lambda>item. f item = key) items)),
                 percentage = percentageOf (length (filter owned (filter (\<lambda>item. f item = key) items)))
                                (length (filter (\<lambda>item. f item = key) items))\<rparr>"
    by blast
  from assms(1) have no: "\<forall>item \<in> set items. \<not> owned item"
    by (simp add: filter_empty_conv)
  then have o: "filter owned (filter (\<lambda>item. f item = key) items) = []"
    by (simp add: filter_empty_conv)
  from no have m: "filter (\<lambda>item. \<not> owned item) (filter (\<lambda>item. f item = key) items) =
      filter (\<lambda>item. f item = key) items"
    by (intro filter_True) simp
  from ne show ?thesis
    unfolding t o m by (simp add: percentageOf_zero)
qed

text \<open>
  C7, as amended. With an empty list of decoded identifiers, \<^verbatim>\<open>crossReference\<close> yields
  one item for every (region, subregion, identifier) triple of the catalog, in the
  catalog's order, none of them owned, and the statistics have 0 owned items and
  percentage 0 in the summary, in every category and in every region. In general the
  summary counts all the items, and the breakdowns count the items of each category and
  of each region; every percentage is that of the owned count and the total count of its
  entry. This percentage is 0 when the total is 0, so nothing is divided by zero.
  Otherwise, for every list a JavaScript array can hold (fewer than \<open>2 ^ 32\<close> items),
  it is an integer within 1/2 of owned / total times 100, and it is this value rounded
  to the nearest integer whenever the value is not exactly halfway between two integers.
  Nothing more is stated at a value halfway between two integers, where the result is
  one of the two neighbours, as the double arithmetic decides.
\<close>

theorem crossReference_empty_inventory:
  "map (\<lambda>item. (region item, subregion item, item_id item)) (crossReference [] locationData) =
     catalogTriples locationData \<and>
   (\<forall>item \<in> set (crossReference [] locationData). \<not> owned item) \<and>
   owned_count (summary (calculateStats (crossReference [] locationData))) = 0 \<and>
   percentage (summary (calculateStats (crossReference [] locationData))) = 0 \<and>
   (\<forall>t \<in> ran (categories (calculateStats (crossReference [] locationData))).
      owned_count t = 0 \<and> percentage t = 0) \<and>
   (\<forall>t \<in> ran (regions (calculateStats (crossReference [] locationData))).
      owned_count t = 0 \<and> percentage t = 0) \<and>
   summary (calculateStats items) =
     \<lparr>total_count = length items, owned_count = length (filter owned items),
      missing_count = length (filter (\<lambda>item. \<not> owned item) items),
      percentage = percentageOf (length (filter owned items)) (length items)\<rparr> \<and>
   categories (calculateStats items) = tallyBy (\<lambda>item. determineCategory (item_id item)) items \<and>
   regions (calculateStats items) = tallyBy region items \<and>
   percentageOf ownedN 0 = 0 \<and>
   (ownedN \<le> totalN \<and> 0 < totalN \<and> totalN < 2 ^ 32 \<longrightarrow>
      \<bar>of_int (percentageOf ownedN totalN) - 100 * of_nat ownedN / of_nat totalN\<bar> \<le> (1 / 2 :: rat) \<and>
      (frac (100 * of_nat ownedN / of_nat totalN :: rat) \<noteq> 1 / 2 \<longrightarrow>
         percentageOf ownedN totalN = round (100 * of_nat ownedN / of_nat totalN :: rat)))"
proof (intro conjI impI ballI)
  let ?empty = "crossReference [] locationData"
  show "map (\<lambda>item. (region item, subregion item, item_id item)) ?empty = catalogTriples locationData"
    by (rule crossReference_triples)
  show "owned_count (summary (calculateStats ?empty)) = 0"
    by (simp add: summary_calculateStats crossReference_empty_filter)
  show "percentage (summary (calculateStats ?empty)) = 0"
    by (simp add: summary_calculateStats crossReference_empty_filter percentageOf_zero)
  show "summary (calculateStats items) =
     \<lparr>total_count = length items, owned_count = length (filter owned items),
      missing_count = length (filter (\<lambda>item. \<not> owned item) items),
      percentage = percentageOf (length (filter owned items)) (length items)\<rparr>"
    using sum_length_filter_compl [of owned items] by (simp add: summary_calculateStats)
  show "categories (calculateStats items) = tallyBy (\<lambda>item. determineCategory (item_id item)) items"
    by (simp add: calculateStats_def Let_def calculateCategoryStats_tallyBy)
  show "regions (calculateStats items) = tallyBy region items"
    by (simp add: calculateStats_def Let_def calculateRegionalStats_tallyBy)
  show "percentageOf ownedN 0 = 0"
    by (simp add: percentageOf_def)
next
  fix item
  assume "item \<in> set (crossReference [] locationData)"
  then show "\<not> owned item"
    by (rule crossReference_empty_not_owned)
next
  fix t
  assume "t \<in> ran (categories (calculateStats (crossReference [] locationData)))"
  then have "t \<in> ran (tallyBy (\<lambda>item. determineCategory (item_id item)) (crossReference [] locationData))"
    by (simp add: calculateStats_def Let_def calculateCategoryStats_tallyBy)
  from tallyBy_none_owned [OF crossReference_empty_filter this]
  show "owned_count t = 0" and "percentage t = 0"
    by simp_all
next
  fix t
  assume "t \<in> ran (regions (calculateStats (crossReference [] locationData)))"
  then have "t \<in> ran (tallyBy region (crossReference [] locationData))"
    by (simp add: calculateStats_def Let_def calculateRegionalStats_tallyBy)
  from tallyBy_none_owned [OF crossReference_empty_filter this]
  show "owned_count t = 0" and "percentage t = 0"
    by simp_all
next
  assume h: "ownedN \<le> totalN \<and> 0 < totalN \<and> totalN < 2 ^ 32"
  then show "\<bar>of_int (percentageOf ownedN totalN) - 100 * of_nat ownedN / of_nat totalN\<bar> \<le> (1 / 2 :: rat)"
    by (intro percentageOf_nearest) simp_all
next
  assume h: "ownedN \<le> totalN \<and> 0 < totalN \<and> totalN < 2 ^ 32"
    and "frac (100 * of_nat ownedN / of_nat totalN :: rat) \<noteq> 1 / 2"
  then show "percentageOf ownedN totalN = round (100 * of_nat ownedN / of_nat totalN :: rat)"
    by (intro percentageOf_round) simp_all
qed

theorem crossReference_empty_inventory_witness:
  "map (\<lambda>item. (region item, subregion item, item_id item)) (crossReference [] exampleCatalog) =
     [(''RegionA'', ''SubA'', ''DEADBEEF''), (''RegionA'', ''SubA'', ''00F42400'')] \<and>
   percentage (summary (calculateStats (crossReference [] exampleCatalog))) = 0 \<and>
   map_option percentage (regions (calculateStats (crossReference [] exampleCatalog)) ''RegionA'') = Some 0 \<and>
   map_option percentage (categories (calculateStats (crossReference [] exampleCatalog)) ''Weapons'') = Some 0 \<and>
   percentage (summary (calculateStats (crossReference [''DEADBEEF''] exampleCatalog))) = 50"
proof -
  let ?empty = "crossReference [] exampleCatalog"
  let ?items = "crossReference [''DEADBEEF''] exampleCatalog"
  note t = crossReference_empty_inventory [of exampleCatalog ?items 1 2]
  note t0 = crossReference_empty_inventory [of exampleCatalog ?empty 1 2]
  have l: "length ?items = 2"
    using arg_cong [OF crossReference_example(1), of length] by simp
  have o: "length (filter owned ?items) = 1"
    by (simp only: length_filter_map_snd crossReference_example(1)) simp
  from t have a: "map (\<lambda>item. (region item, subregion item, item_id item)) ?empty =
     catalogTriples exampleCatalog"
    by blast
  from t have b: "percentage (summary (calculateStats ?empty)) = 0"
    by blast
  from t have rb: "\<forall>t \<in> ran (regions (calculateStats ?empty)). owned_count t = 0 \<and> percentage t = 0"
    by blast
  from t have cb: "\<forall>t \<in> ran (categories (calculateStats ?empty)). owned_count t = 0 \<and> percentage t = 0"
    by blast
  have k: "''RegionA'' \<notin> set inheritedKeys" "''Weapons'' \<notin> set inheritedKeys"
    by (simp_all add: inheritedKeys_def)
  have e: "?empty = [enrich [] ''RegionA'' ''SubA'' (''DEADBEEF'',
               \<lparr>entry_name = ''Test Sword'', entry_type = None, entry_hint = None,
                entry_multiple = None\<rparr>),
             enrich [] ''RegionA'' ''SubA'' (''00F42400'',
               \<lparr>entry_name = ''Dagger +1'', entry_type = Some ''chest'', entry_hint = None,
                entry_multiple = Some False\<rparr>)]"
    by (simp add: crossReference_def exampleCatalog_def)
  have w: "determineCategory ''00F42400'' = ''Weapons''"
    by (simp add: determineCategory_def parseInt16_examples)
  from t0 have "regions (calculateStats ?empty) = tallyBy region ?empty"
    by blast
  then have "regions (calculateStats ?empty) ''RegionA'' \<noteq> None"
    using k(1) by (simp add: tallyBy_def Let_def e enrich_sel)
  then obtain tr where tr: "regions (calculateStats ?empty) ''RegionA'' = Some tr"
    by blast
  then have "tr \<in> ran (regions (calculateStats ?empty))"
    by (rule ranI)
  with rb have "percentage tr = 0"
    by blast
  with tr have c: "map_option percentage (regions (calculateStats ?empty) ''RegionA'') = Some 0"
    by simp
  from t0 have "categories (calculateStats ?empty) =
      tallyBy (\<lambda>item. determineCategory (item_id item)) ?empty"
    by blast
  then have "categories (calculateStats ?empty) ''Weapons'' \<noteq> None"
    using k(2) by (simp add: tallyBy_def Let_def e enrich_sel w)
  then obtain tc where tc: "categories (calculateStats ?empty) ''Weapons'' = Some tc"
    by blast
  then have "tc \<in> ran (categories (calculateStats ?empty))"
    by (rule ranI)
  with cb have "percentage tc = 0"
    by blast
  with tc have d: "map_option percentage (categories (calculateStats ?empty) ''Weapons'') = Some 0"
    by simp
  have h: "(1::nat) \<le> 2 \<and> (0::nat) < 2 \<and> (2::nat) < 2 ^ 32"
    by simp
  have f: "frac (100 * of_nat 1 / of_nat 2 :: rat) \<noteq> 1 / 2"
    by (simp add: frac_def)
  from t h f have "percentageOf 1 2 = round (100 * of_nat 1 / of_nat 2 :: rat)"
    by blast
  also have "\<dots> = 50"
    by (simp add: round_def floor_numeral_quotient)
  finally have p: "percentageOf 1 2 = 50" .
  from t have "summary (calculateStats ?items) =
     \<lparr>total_count = length ?items, owned_count = length (filter owned ?items),
      missing_count = length (filter (\<lambda>item. \<not> owned item) ?items),
      percentage = percentageOf (length (filter owned ?items)) (length ?items)\<rparr>"
    by blast
  then have "percentage (summary (calculateStats ?items)) = percentageOf 1 2"
    by (simp only: l o tally.simps)
  then have g: "percentage (summary (calculateStats ?items)) = 50"
    by (simp only: p)
  from a b c d g show ?thesis
    by (simp only: crossReference_example(3))
qed

text \<open>The items of the catalog of 40 items, with the 23 of the first subregion owned.\<close>

lemma crossReference_two_subregions:
  "crossReference inventoryIds [(r, [(s1, e1), (s2, e2)])] =
     map (enrich inventoryIds r s1) e1 @ map (enrich inventoryIds r s2) e2"
  by (simp add: crossReference_def)

lemma tie_ids_distinct: "distinct (tieOwnedIds @ tieMissingIds)"
  by code_simp

lemma tie_ids_example:
  "hd tieOwnedIds = ''10000000'' \<and> last tieOwnedIds = ''10000016'' \<and>
   last tieMissingIds = ''20000010''"
  by code_simp

lemma tie_ids_disjoint: "i \<in> set tieMissingIds \<Longrightarrow> i \<notin> set tieOwnedIds"
  by (auto simp: tieMissingIds_def tieOwnedIds_def)

lemma tie_items:
  "length (crossReference tieOwnedIds tieCatalog) = 40"
  "length (filter owned (crossReference tieOwnedIds tieCatalog)) = 23"
  "filter (\<lambda>item. region item = ''RegionA'') (crossReference tieOwnedIds tieCatalog) =
     crossReference tieOwnedIds tieCatalog"
proof -
  have lo: "length tieOwnedIds = 23" and lm: "length tieMissingIds = 17"
    by (simp_all add: tieOwnedIds_def tieMissingIds_def)
  show "length (crossReference tieOwnedIds tieCatalog) = 40"
    unfolding tieCatalog_def crossReference_two_subregions by (simp add: lo lm)
  have a: "filter owned (map (enrich tieOwnedIds r s) (map (\<lambda>i. (i, d)) tieOwnedIds)) =
      map (enrich tieOwnedIds r s) (map (\<lambda>i. (i, d)) tieOwnedIds)" for r s d
    by (simp add: filter_id_conv enrich_sel)
  have b: "filter owned (map (enrich tieOwnedIds r s) (map (\<lambda>i. (i, d)) tieMissingIds)) = []" for r s d
    by (simp add: filter_empty_conv enrich_sel tie_ids_disjoint)
  show "length (filter owned (crossReference tieOwnedIds tieCatalog)) = 23"
    unfolding tieCatalog_def crossReference_two_subregions filter_append a b by (simp add: lo)
  show "filter (\<lambda>item. region item = ''RegionA'') (crossReference tieOwnedIds tieCatalog) =
     crossReference tieOwnedIds tieCatalog"
    unfolding tieCatalog_def crossReference_two_subregions
    by (simp add: filter_id_conv enrich_sel)
qed

text \<open>
  C7 as first stated, percentage = round (owned / total times 100), does not hold at a
  value halfway between two integers. With 23 of the 40 items of a catalog owned, the
  exact value is 57.5, which rounds to 58, and the summary and the region both report
  57.
\<close>

theorem percentage_round_counterexample:
  "total_count (summary (calculateStats (crossReference tieOwnedIds tieCatalog))) = 40 \<and>
   owned_count (summary (calculateStats (crossReference tieOwnedIds tieCatalog))) = 23 \<and>
   percentage (summary (calculateStats (crossReference tieOwnedIds tieCatalog))) = 57 \<and>
   map_option percentage (regions (calculateStats (crossReference tieOwnedIds tieCatalog)) ''RegionA'') = Some 57 \<and>
   (23 / 40 * 100 :: rat) = 115 / 2 \<and>
   round (23 / 40 * 100 :: rat) = 58 \<and>
   percentageOf 23 40 \<noteq> round (of_nat 23 / of_nat 40 * 100 :: rat)"
proof -
  let ?items = "crossReference tieOwnedIds tieCatalog"
  have r: "round (23 / 40 * 100 :: rat) = 58"
  proof -
    have "(23 / 40 * 100 + 1 / 2 :: rat) = 58"
      by simp
    then show ?thesis
      by (simp only: round_def) simp
  qed
  have k: "''RegionA'' \<notin> set inheritedKeys"
    by (simp add: inheritedKeys_def)
  have ne: "?items \<noteq> []"
    using tie_items(1) by auto
  have "regions (calculateStats ?items) ''RegionA'' =
      Some \<lparr>total_count = 40, owned_count = 23,
            missing_count = length (filter (\<lambda>item. \<not> owned item) ?items),
            percentage = 57\<rparr>"
    using k ne
    by (simp add: calculateStats_def Let_def calculateRegionalStats_tallyBy tallyBy_def tie_items
        percentageOf_23_40)
  then have g: "map_option percentage (regions (calculateStats ?items) ''RegionA'') = Some 57"
    by simp
  have s: "total_count (summary (calculateStats ?items)) = 40"
    "owned_count (summary (calculateStats ?items)) = 23"
    "percentage (summary (calculateStats ?items)) = 57"
    by (simp_all add: summary_calculateStats tie_items percentageOf_23_40)
  have e: "(23 / 40 * 100 :: rat) = 115 / 2"
    by simp
  have n: "percentageOf 23 40 \<noteq> round (of_nat 23 / of_nat 40 * 100 :: rat)"
    using r by (simp add: percentageOf_23_40)
  from s g e r n show ?thesis
    by (intro conjI)
qed

end
